theory Spec2Isabelle
  imports Main "HOL-Library.Word"
begin

section \<open>Data model of the pss forwarding and handshake layer\<close>

text \<open>
  The source is one Go file of package \<open>pss\<close>: the forward cache, the key registry, the
  dispatcher \<open>Process\<close> and the forwarder \<open>Forward\<close>. Byte slices whose nil-ness the code
  can observe through \<open>bytes.Equal\<close> are options of byte lists (\<open>None\<close> is nil); times
  are nanosecond counts with \<open>0\<close> the zero \<open>time.Time\<close>; Go maps are partial functions,
  and a map of pointers holds the pointed-to records, since every \<open>pssPeer\<close> is allocated
  for one slot and never shared. The mutex is left out: every operation runs to completion
  on its own. Handler registration, \<open>AddPeer\<close> and the protocol bridge are outside the
  model.
\<close>

type_synonym byte = "8 word"
type_synonym bytes = "byte list"
type_synonym slice = "bytes option"
type_synonym Time = int
type_synonym TopicType = "32 word"
type_synonym Address = bytes
type_synonym pssDigest = bytes
type_synonym NodeID = bytes

datatype error = Error string

text \<open>
  Outcome of running an operation: it returns; it stops on a nil dereference or an
  out-of-range slice (\<open>Panic\<close>); \<open>log.Crit\<close> ends the process, in the state reached
  (\<open>Exit\<close>); or the nested calls of \<open>Forward\<close> exceed the given depth (\<open>Diverge\<close>).
\<close>

datatype ('s, 'a) run = Diverge | Panic | Exit 's | Return 'a

definition bind_run :: "('s, 'a) run \<Rightarrow> ('a \<Rightarrow> ('s, 'b) run) \<Rightarrow> ('s, 'b) run" where
  "bind_run m f = (case m of Diverge \<Rightarrow> Diverge | Panic \<Rightarrow> Panic | Exit s \<Rightarrow> Exit s | Return x \<Rightarrow> f x)"

definition digestLength :: nat where
  "digestLength = 32"

text \<open>
  \<open>pot.Address\<close> is declared outside this file; it is a fixed-width byte array, taken
  here at the width of a swarm hash.
\<close>

definition addressLength :: nat where
  "addressLength = 32"

definition zeroAddress :: Address where
  "zeroAddress = replicate addressLength 0"

definition zeroDigest :: pssDigest where
  "zeroDigest = replicate digestLength 0"

definition sliceBytes :: "slice \<Rightarrow> bytes" where
  "sliceBytes b = (case b of None \<Rightarrow> [] | Some xs \<Rightarrow> xs)"

text \<open>\<open>bytes.Equal\<close>: a nil slice equals an empty one.\<close>

definition bytes_Equal :: "slice \<Rightarrow> slice \<Rightarrow> bool" where
  "bytes_Equal a b = (sliceBytes a = sliceBytes b)"

text \<open>\<open>copy(potaddr[:], to)\<close> into a zero array: truncates or zero-pads.\<close>

definition potAddress :: "slice \<Rightarrow> Address" where
  "potAddress b = take addressLength (sliceBytes b) @ replicate (addressLength - length (sliceBytes b)) 0"

text \<open>\<open>time.Hour * 24 * 365\<close> in nanoseconds.\<close>

definition symkeyValidity :: int where
  "symkeyValidity = 3600000000000 * 24 * 365"

record pssKeyMsg =
  From :: slice
  Key :: bytes

text \<open>
  The values \<open>Process\<close> holds in \<open>keymsgraw\<close>, of type \<open>interface{}\<close>, by their dynamic type:
  a byte slice or a pointer to a \<open>pssKeyMsg\<close>. The type assertion
  \<open>keymsgraw.(*pssKeyMsg)\<close> succeeds on the second only.
\<close>

datatype ifaceValue = BytesValue bytes | KeyMsgPointer pssKeyMsg

definition asPssKeyMsg :: "ifaceValue \<Rightarrow> pssKeyMsg option" where
  "asPssKeyMsg v = (case v of BytesValue b \<Rightarrow> None | KeyMsgPointer k \<Rightarrow> Some k)"

text \<open>
  A key of the chunk store, a byte slice: its length and the bytes of its backing array
  up to its capacity. The slice expression \<open>key[:digestLength]\<close> reads the array and is
  bounded by the capacity.
\<close>

record storageKey =
  keyLen :: nat
  keyArray :: bytes

record pssPeer =
  rw :: "nat option"
  pubkey :: bytes
  recvsymkey :: string
  sendsymkey :: string
  symkeyexpires :: Time

definition newPeer :: pssPeer where
  "newPeer = \<lparr>rw = None, pubkey = [], recvsymkey = [], sendsymkey = [], symkeyexpires = 0\<rparr>"

record pssCacheEntry =
  expiresAt :: Time
  receivedFrom :: slice

definition newCacheEntry :: pssCacheEntry where
  "newCacheEntry = \<lparr>expiresAt = 0, receivedFrom = None\<rparr>"

record 'e PssMsg =
  To :: slice
  Payload :: 'e

text \<open>
  \<open>whisper.ReceivedMessage\<close>: only the payload, a byte slice, and the result of
  \<open>Validate()\<close> are used.
\<close>

record ReceivedMessage =
  MsgPayload :: bytes
  SigValid :: bool

text \<open>
  \<open>whisper.MessageParams\<close>, without the constant TTL, work time and PoW fields. \<open>DstKey\<close> is
  the recipient's public key of an asymmetric message, which the node signs with its own key.
\<close>

record MessageParams =
  KeySym :: bytes
  DstKey :: "bytes option"
  ParamTopic :: TopicType
  ParamPayload :: bytes

text \<open>
  A connected overlay peer as \<open>EachConn\<close> hands it to the callback: its address and,
  when it implements \<open>senderPeer\<close>, its node id.
\<close>

record OverlayConn =
  connAddress :: slice
  connID :: "NodeID option"

text \<open>
  The top-level object. \<open>whisper\<close> is the key store of the envelope library (field \<open>w\<close>).
  Three fields are not in the struct: \<open>ticks\<close> counts the calls of \<open>time.Now\<close>,
  \<open>wire\<close> records every call of a peer's \<open>Send\<close> (connection address, message,
  success), \<open>delivered\<close> every handler invocation.
\<close>

record ('e, 'w) Pss =
  peerPool :: "Address \<rightharpoonup> (TopicType \<rightharpoonup> pssPeer)"
  fwdPool :: "NodeID \<rightharpoonup> nat"
  reverseKeyPool :: "string \<rightharpoonup> (TopicType \<rightharpoonup> Address)"
  handlers :: "TopicType \<rightharpoonup> nat list"
  fwdcache :: "pssDigest \<rightharpoonup> pssCacheEntry"
  cachettl :: int
  recvsymkeys :: "string list"
  whisper :: 'w
  ticks :: nat
  wire :: "(slice \<times> 'e PssMsg \<times> bool) list"
  delivered :: "(nat \<times> bytes \<times> Address) list"

text \<open>
  The collaborators the file calls but does not define are parameters of the model, and
  nothing is assumed about them. \<open>EachConn\<close> gives the connections the overlay's iterator
  yields for a target and a limit, in order, each with its proximity order and its
  proximity-bin flag. \<open>Store\<close> is the chunk store on the serialized message. \<open>peerSend\<close> is
  \<open>Send\<close> on the entry of \<open>fwdPool\<close> (\<open>None\<close> when the node id has none). \<open>clock\<close> gives the
  time read by the n-th call of \<open>time.Now\<close>. The key store and the envelope operations are
  those of the envelope library, \<open>OpenAsymmetric\<close> with the node's private key.
  \<open>callHandler\<close> is the result of a registered handler; handlers are taken not to change
  the state.
\<close>

record ('e, 'w) Env =
  BaseAddr :: slice
  EachConn :: "slice \<Rightarrow> nat \<Rightarrow> (OverlayConn \<times> nat \<times> bool) list"
  Store :: "'e PssMsg \<Rightarrow> error + storageKey"
  peerSend :: "nat option \<Rightarrow> 'e PssMsg \<Rightarrow> error option"
  clock :: "nat \<Rightarrow> Time"
  GetSymKey :: "'w \<Rightarrow> string \<Rightarrow> error + bytes"
  AddSymKeyDirect :: "'w \<Rightarrow> bytes \<Rightarrow> (error + string) \<times> 'w"
  GenerateSymKey :: "'w \<Rightarrow> (error + string) \<times> 'w"
  OpenSymmetric :: "'e \<Rightarrow> bytes \<Rightarrow> error + ReceivedMessage"
  OpenAsymmetric :: "'e \<Rightarrow> error + ReceivedMessage"
  envTopic :: "'e \<Rightarrow> TopicType"
  NewSentMessage :: "MessageParams \<Rightarrow> error + bytes"
  Wrap :: "bytes \<Rightarrow> MessageParams \<Rightarrow> error + 'e"
  callHandler :: "nat \<Rightarrow> bytes \<Rightarrow> Address \<Rightarrow> error option"

section \<open>Operations\<close>

text \<open>\<open>time.Now()\<close>: reads the clock and advances the call counter.\<close>

definition timeNow :: "('e, 'w) Env \<Rightarrow> ('e, 'w) Pss \<Rightarrow> Time \<times> ('e, 'w) Pss" where
  "timeNow env s = (clock env (ticks s), s\<lparr>ticks := Suc (ticks s)\<rparr>)"

definition storeMsg :: "('e, 'w) Env \<Rightarrow> 'e PssMsg \<Rightarrow> (('e, 'w) Pss, pssDigest \<times> error option) run" where
  "storeMsg env msg =
     (case Store env msg of
        Inl err \<Rightarrow> Return (zeroDigest, Some err)
      | Inr key \<Rightarrow>
          if length (keyArray key) < digestLength then Panic
          else Return (take digestLength (keyArray key), None))"

text \<open>\<open>self.peerPool[id][topic]\<close>: nil when either key is missing.\<close>

definition peerOf :: "('e, 'w) Pss \<Rightarrow> Address \<Rightarrow> TopicType \<Rightarrow> pssPeer option" where
  "peerOf s pid topic = (case peerPool s pid of None \<Rightarrow> None | Some m \<Rightarrow> m topic)"

text \<open>A write through the pointer \<open>psp\<close>; a nil pointer stops the program.\<close>

definition setPeer ::
  "('e, 'w) Pss \<Rightarrow> Address \<Rightarrow> TopicType \<Rightarrow> (pssPeer \<Rightarrow> pssPeer) \<Rightarrow> (('e, 'w) Pss, ('e, 'w) Pss) run" where
  "setPeer s pid topic f =
     (case peerPool s pid of
        None \<Rightarrow> Panic
      | Some m \<Rightarrow>
          (case m topic of
             None \<Rightarrow> Panic
           | Some psp \<Rightarrow> Return (s\<lparr>peerPool := (peerPool s)(pid \<mapsto> m(topic \<mapsto> f psp))\<rparr>)))"

definition preparePeerTopic ::
  "('e, 'w) Pss \<Rightarrow> Address \<Rightarrow> TopicType \<Rightarrow> bool \<times> ('e, 'w) Pss" where
  "preparePeerTopic s pid topic =
     (let m = (case peerPool s pid of None \<Rightarrow> Map.empty | Some m0 \<Rightarrow> m0) in
      if m topic \<noteq> None then (False, s\<lparr>peerPool := (peerPool s)(pid \<mapsto> m)\<rparr>)
      else (True, s\<lparr>peerPool := (peerPool s)(pid \<mapsto> m(topic \<mapsto> newPeer))\<rparr>))"

definition AddPublicKey ::
  "('e, 'w) Pss \<Rightarrow> Address \<Rightarrow> TopicType \<Rightarrow> bytes \<Rightarrow> (('e, 'w) Pss, ('e, 'w) Pss) run" where
  "AddPublicKey s addr topic pk =
     setPeer (snd (preparePeerTopic s addr topic)) addr topic (\<lambda>psp. psp\<lparr>pubkey := pk\<rparr>)"

definition SetIncomingSymmetricKey ::
  "('e, 'w) Env \<Rightarrow> ('e, 'w) Pss \<Rightarrow> Address \<Rightarrow> TopicType \<Rightarrow> bytes \<Rightarrow> (('e, 'w) Pss, error option \<times> ('e, 'w) Pss) run" where
  "SetIncomingSymmetricKey env s addr topic key =
     (case AddSymKeyDirect env (whisper s) key of
        (Inl err, w1) \<Rightarrow> Return (Some err, s\<lparr>whisper := w1\<rparr>)
      | (Inr keyid, w1) \<Rightarrow>
          (let s1 = snd (preparePeerTopic (s\<lparr>whisper := w1\<rparr>) addr topic);
               s2 = s1\<lparr>recvsymkeys := recvsymkeys s1 @ [keyid]\<rparr>;
               (now, s3) = timeNow env s2
           in bind_run
                (setPeer s3 addr topic
                   (\<lambda>psp. psp\<lparr>recvsymkey := keyid, symkeyexpires := now + symkeyValidity\<rparr>))
                (\<lambda>s4.
                   let r = (case reverseKeyPool s4 keyid of None \<Rightarrow> Map.empty | Some r0 \<Rightarrow> r0)
                   in Return (None, s4\<lparr>reverseKeyPool := (reverseKeyPool s4)(keyid \<mapsto> r(topic \<mapsto> addr))\<rparr>))))"

definition SetOutgoingSymmetricKey ::
  "('e, 'w) Env \<Rightarrow> ('e, 'w) Pss \<Rightarrow> Address \<Rightarrow> TopicType \<Rightarrow> bytes \<Rightarrow> (('e, 'w) Pss, error option \<times> ('e, 'w) Pss) run" where
  "SetOutgoingSymmetricKey env s addr topic key =
     (case AddSymKeyDirect env (whisper s) key of
        (Inl err, w1) \<Rightarrow> Return (Some err, s\<lparr>whisper := w1\<rparr>)
      | (Inr keyid, w1) \<Rightarrow>
          (let s1 = snd (preparePeerTopic (s\<lparr>whisper := w1\<rparr>) addr topic);
               (now, s2) = timeNow env s1
           in bind_run
                (setPeer s2 addr topic
                   (\<lambda>psp. psp\<lparr>sendsymkey := keyid, symkeyexpires := now + symkeyValidity\<rparr>))
                (\<lambda>s3. Return (None, s3))))"

definition addFwdCacheSender ::
  "('e, 'w) Pss \<Rightarrow> slice \<Rightarrow> pssDigest \<Rightarrow> error option \<times> ('e, 'w) Pss" where
  "addFwdCacheSender s addr digest =
     (let entry = (case fwdcache s digest of None \<Rightarrow> newCacheEntry | Some e \<Rightarrow> e)
      in (None, s\<lparr>fwdcache := (fwdcache s)(digest \<mapsto> entry\<lparr>receivedFrom := addr\<rparr>)\<rparr>))"

definition AddToCache ::
  "('e, 'w) Env \<Rightarrow> ('e, 'w) Pss \<Rightarrow> slice \<Rightarrow> 'e PssMsg \<Rightarrow> (('e, 'w) Pss, error option \<times> ('e, 'w) Pss) run" where
  "AddToCache env s addr msg =
     bind_run (storeMsg env msg)
       (\<lambda>(digest, err).
          case err of
            Some e \<Rightarrow> Return (Some e, s)
          | None \<Rightarrow> Return (addFwdCacheSender s addr digest))"

definition addFwdCacheExpire ::
  "('e, 'w) Env \<Rightarrow> ('e, 'w) Pss \<Rightarrow> pssDigest \<Rightarrow> error option \<times> ('e, 'w) Pss" where
  "addFwdCacheExpire env s digest =
     (let entry = (case fwdcache s digest of None \<Rightarrow> newCacheEntry | Some e \<Rightarrow> e);
          (now, s1) = timeNow env s
      in (None, s1\<lparr>fwdcache := (fwdcache s1)(digest \<mapsto> entry\<lparr>expiresAt := now + cachettl s1\<rparr>)\<rparr>))"

definition checkFwdCache ::
  "('e, 'w) Env \<Rightarrow> ('e, 'w) Pss \<Rightarrow> slice \<Rightarrow> pssDigest \<Rightarrow> bool \<times> ('e, 'w) Pss" where
  "checkFwdCache env s addr digest =
     (case fwdcache s digest of
        None \<Rightarrow> (False, s)
      | Some entry \<Rightarrow>
          (let (now, s1) = timeNow env s in
           if expiresAt entry > now then (True, s1)
           else if expiresAt entry = 0 \<and> bytes_Equal addr (receivedFrom entry) then (True, s1)
           else (False, s1)))"

definition isSelfRecipient :: "('e, 'w) Env \<Rightarrow> 'e PssMsg \<Rightarrow> bool" where
  "isSelfRecipient env msg = bytes_Equal (To msg) (BaseAddr env)"

definition isActive :: "('e, 'w) Pss \<Rightarrow> Address \<Rightarrow> TopicType \<Rightarrow> (('e, 'w) Pss, bool) run" where
  "isActive s pid topic =
     (case peerPool s pid of
        None \<Rightarrow> Return False
      | Some m \<Rightarrow> (case m topic of None \<Rightarrow> Panic | Some psp \<Rightarrow> Return (rw psp \<noteq> None)))"

definition isSecured ::
  "('e, 'w) Env \<Rightarrow> ('e, 'w) Pss \<Rightarrow> Address \<Rightarrow> TopicType \<Rightarrow> (('e, 'w) Pss, bool \<times> ('e, 'w) Pss) run" where
  "isSecured env s pid topic =
     (case peerPool s pid of
        None \<Rightarrow> Return (False, s)
      | Some m \<Rightarrow>
          (case m topic of
             None \<Rightarrow> Panic
           | Some psp \<Rightarrow>
               (let (now, s1) = timeNow env s in
                if symkeyexpires psp < now then Return (False, s1)
                else if recvsymkey psp = [] \<or> sendsymkey psp = [] then Return (False, s1)
                else Return (True, s1))))"

definition getHandlers :: "('e, 'w) Pss \<Rightarrow> TopicType \<Rightarrow> nat list" where
  "getHandlers s topic = (case handlers s topic of None \<Rightarrow> [] | Some hs \<Rightarrow> hs)"

text \<open>\<open>self.reverseKeyPool[symkeyid][env.Topic]\<close>: the zero address when there is no entry.\<close>

definition reverseOf :: "('e, 'w) Pss \<Rightarrow> string \<Rightarrow> TopicType \<Rightarrow> Address" where
  "reverseOf s keyid topic =
     (case reverseKeyPool s keyid of
        None \<Rightarrow> zeroAddress
      | Some r \<Rightarrow> (case r topic of None \<Rightarrow> zeroAddress | Some a \<Rightarrow> a))"

text \<open>
  The loop of \<open>Process\<close> over \<open>self.recvsymkeys\<close>: the first key id whose key is known
  and opens the envelope gives the received message and the sender.
\<close>

fun trySymKeys ::
  "('e, 'w) Env \<Rightarrow> ('e, 'w) Pss \<Rightarrow> 'e \<Rightarrow> string list \<Rightarrow> (ReceivedMessage \<times> Address) option" where
  "trySymKeys env s e [] = None"
| "trySymKeys env s e (symkeyid # rest) =
     (case GetSymKey env (whisper s) symkeyid of
        Inl err \<Rightarrow> trySymKeys env s e rest
      | Inr symkey \<Rightarrow>
          (case OpenSymmetric env e symkey of
             Inl err \<Rightarrow> trySymKeys env s e rest
           | Inr recvmsg \<Rightarrow> Some (recvmsg, reverseOf s symkeyid (envTopic env e))))"

text \<open>The loop over the handlers of a topic, in the order the map iteration gives them.\<close>

fun runHandlers ::
  "('e, 'w) Env \<Rightarrow> nat list \<Rightarrow> bytes \<Rightarrow> Address \<Rightarrow> ('e, 'w) Pss \<Rightarrow> error option \<times> ('e, 'w) Pss" where
  "runHandlers env [] payload sender s = (None, s)"
| "runHandlers env (f # fs) payload sender s =
     (let s1 = s\<lparr>delivered := delivered s @ [(f, payload, sender)]\<rparr> in
      case callHandler env f payload sender of
        Some err \<Rightarrow> (Some err, s1)
      | None \<Rightarrow> runHandlers env fs payload sender s1)"

text \<open>
  \<open>send\<close>, \<open>SendSym\<close> and \<open>Process\<close> call \<open>Forward\<close>, which calls \<open>Process\<close> again for a
  message to the node itself. The three are written over the forwarder \<open>fwd\<close> they
  call; \<open>Forward\<close> below closes the recursion.
\<close>

definition sendWith ::
  "(('e, 'w) Pss \<Rightarrow> 'e PssMsg \<Rightarrow> (('e, 'w) Pss, error option \<times> ('e, 'w) Pss) run) \<Rightarrow> ('e, 'w) Env \<Rightarrow> ('e, 'w) Pss \<Rightarrow>
     slice \<Rightarrow> TopicType \<Rightarrow> bytes \<Rightarrow> MessageParams \<Rightarrow> (('e, 'w) Pss, error option \<times> ('e, 'w) Pss) run" where
  "sendWith fwd env s to topic msg wparams =
     (case NewSentMessage env wparams of
        Inl err \<Rightarrow> Return (Some (Error ''whisper backend''), s)
      | Inr woutmsg \<Rightarrow>
          (case Wrap env woutmsg wparams of
             Inl err \<Rightarrow> Return (Some (Error ''whisper backend''), s)
           | Inr e \<Rightarrow> fwd s \<lparr>To = to, Payload = e\<rparr>))"

definition SendSymWith ::
  "(('e, 'w) Pss \<Rightarrow> 'e PssMsg \<Rightarrow> (('e, 'w) Pss, error option \<times> ('e, 'w) Pss) run) \<Rightarrow> ('e, 'w) Env \<Rightarrow> ('e, 'w) Pss \<Rightarrow>
     slice \<Rightarrow> TopicType \<Rightarrow> bytes \<Rightarrow> (('e, 'w) Pss, error option \<times> ('e, 'w) Pss) run" where
  "SendSymWith fwd env s to topic msg =
     (let potaddr = potAddress to in
      bind_run (isSecured env s potaddr topic)
        (\<lambda>(secured, s1).
           if \<not> secured then Return (Some (Error ''missing complete handshake''), s1)
           else
             (case peerOf s1 potaddr topic of
                None \<Rightarrow> Panic
              | Some psp \<Rightarrow>
                  (case GetSymKey env (whisper s1) (sendsymkey psp) of
                     Inl err \<Rightarrow> Return (Some (Error ''missing valid symkey''), s1)
                   | Inr symkey \<Rightarrow>
                       sendWith fwd env s1 to topic msg
                         \<lparr>KeySym = symkey, DstKey = None, ParamTopic = topic, ParamPayload = msg\<rparr>))))"

definition SendAsymWith ::
  "(('e, 'w) Pss \<Rightarrow> 'e PssMsg \<Rightarrow> (('e, 'w) Pss, error option \<times> ('e, 'w) Pss) run) \<Rightarrow> ('e, 'w) Env \<Rightarrow> ('e, 'w) Pss \<Rightarrow>
     slice \<Rightarrow> TopicType \<Rightarrow> bytes \<Rightarrow> (('e, 'w) Pss, error option \<times> ('e, 'w) Pss) run" where
  "SendAsymWith fwd env s to topic msg =
     (let potaddr = potAddress to in
      case peerOf s potaddr topic of
        None \<Rightarrow> Panic
      | Some psp \<Rightarrow>
          sendWith fwd env s to topic msg
            \<lparr>KeySym = [], DstKey = Some (pubkey psp), ParamTopic = topic, ParamPayload = msg\<rparr>)"

text \<open>
  The branch of \<open>Process\<close> taken when no symmetric key opened the envelope. The payload
  of the received message, a byte slice, is assigned to \<open>keymsgraw\<close> and tested for a
  \<open>*pssKeyMsg\<close>.
\<close>

definition ProcessAsymWith ::
  "(('e, 'w) Pss \<Rightarrow> 'e PssMsg \<Rightarrow> (('e, 'w) Pss, error option \<times> ('e, 'w) Pss) run) \<Rightarrow> ('e, 'w) Env \<Rightarrow> ('e, 'w) Pss \<Rightarrow>
     'e PssMsg \<Rightarrow> (('e, 'w) Pss, error option \<times> ('e, 'w) Pss) run" where
  "ProcessAsymWith fwd env s pssmsg =
     (let e = Payload pssmsg; topic = envTopic env e in
      case OpenAsymmetric env e of
        Inl err \<Rightarrow> Return (None, s)
      | Inr recvmsg \<Rightarrow>
          if \<not> SigValid recvmsg then Return (Some (Error ''invalid signature''), s)
          else
            (case asPssKeyMsg (BytesValue (MsgPayload recvmsg)) of
               None \<Rightarrow> Return (Some (Error ''invalid handshake msg''), s)
             | Some keymsg \<Rightarrow>
                 (let sender = potAddress (From keymsg) in
                  bind_run (SetOutgoingSymmetricKey env s sender topic (Key keymsg))
                    (\<lambda>(err, s1).
                       if err \<noteq> None
                       then Return (Some (Error ''received invalid symkey in pss handshake''), s1)
                       else
                         bind_run (isSecured env s1 sender topic)
                           (\<lambda>(secured, s2).
                              if secured then Return (None, s2)
                              else
                                (case GenerateSymKey env (whisper s2) of
                                   (Inl err, w1) \<Rightarrow>
                                     Return (Some (Error ''could not generate outgoing symkey''), s2\<lparr>whisper := w1\<rparr>)
                                 | (Inr recvkeyid, w1) \<Rightarrow>
                                     (let s3 = s2\<lparr>whisper := w1\<rparr> in
                                      case GetSymKey env (whisper s3) recvkeyid of
                                        Inl err \<Rightarrow>
                                          Return (Some (Error ''could not retreieve generated outgoing symkey''), s3)
                                      | Inr recvkey \<Rightarrow>
                                          bind_run (SetIncomingSymmetricKey env s3 sender topic recvkey)
                                            (\<lambda>(err, s4).
                                               if err \<noteq> None
                                               then Return (Some (Error ''could not set recvkey''), s4)
                                               else
                                                 bind_run (SendSymWith fwd env s4 (From keymsg) topic recvkey)
                                                   (\<lambda>(ignored, s5). Return (None, s5))))))))))"

definition ProcessWith ::
  "(('e, 'w) Pss \<Rightarrow> 'e PssMsg \<Rightarrow> (('e, 'w) Pss, error option \<times> ('e, 'w) Pss) run) \<Rightarrow> ('e, 'w) Env \<Rightarrow> ('e, 'w) Pss \<Rightarrow>
     'e PssMsg \<Rightarrow> (('e, 'w) Pss, error option \<times> ('e, 'w) Pss) run" where
  "ProcessWith fwd env s pssmsg =
     (let e = Payload pssmsg in
      case trySymKeys env s e (recvsymkeys s) of
        None \<Rightarrow> ProcessAsymWith fwd env s pssmsg
      | Some (recvmsg, sender) \<Rightarrow>
          bind_run (isSecured env s sender (envTopic env e))
            (\<lambda>(secured, s1).
               if \<not> secured then Return (None, s1)
               else
                 (let hs = getHandlers s1 (envTopic env e) in
                  if length hs = 0 then Return (Some (Error ''No registered handler for topic''), s1)
                  else Return (runHandlers env hs (MsgPayload recvmsg) sender s1))))"

text \<open>
  The callback \<open>Forward\<close> gives to \<open>EachConn\<close>, on the state and the counter \<open>sent\<close> it
  closes over. It returns whether the iteration goes on. For a connection that is not a
  \<open>senderPeer\<close> it calls \<open>log.Crit\<close>, which ends the process.
\<close>

definition forwardConn ::
  "('e, 'w) Env \<Rightarrow> 'e PssMsg \<Rightarrow> pssDigest \<Rightarrow> OverlayConn \<times> nat \<times> bool \<Rightarrow>
     ('e, 'w) Pss \<times> nat \<Rightarrow> (('e, 'w) Pss, bool \<times> ('e, 'w) Pss \<times> nat) run" where
  "forwardConn env msg digest c st =
     (case c of (op, po, isproxbin) \<Rightarrow>
      case st of (s, sent) \<Rightarrow>
      (case connID op of
         None \<Rightarrow> Exit s
       | Some spid \<Rightarrow>
           (let pp = fwdPool s spid;
                (skip, s1) = checkFwdCache env s (connAddress op) digest
            in if skip then Return (True, s1, sent)
               else
                 (case peerSend env pp msg of
                    Some err \<Rightarrow> Return (True, s1\<lparr>wire := wire s1 @ [(connAddress op, msg, False)]\<rparr>, sent)
                  | None \<Rightarrow>
                      (let s2 = s1\<lparr>wire := wire s1 @ [(connAddress op, msg, True)]\<rparr> in
                       if bytes_Equal (To msg) (connAddress op) \<or> \<not> isproxbin
                       then Return (False, s2, Suc sent)
                       else Return (True, s2, Suc sent))))))"

text \<open>
  The overlay's iteration: it calls the callback on each connection until it returns false;
  it does not go on when the callback does not return.
\<close>

fun eachConn ::
  "('c \<Rightarrow> 'a \<Rightarrow> ('s, bool \<times> 'a) run) \<Rightarrow> 'c list \<Rightarrow> 'a \<Rightarrow> ('s, 'a) run" where
  "eachConn f [] st = Return st"
| "eachConn f (c # cs) st =
     bind_run (f c st) (\<lambda>(continue, st1). if continue then eachConn f cs st1 else Return st1)"

text \<open>\<open>Forward\<close> for a message whose recipient is another node.\<close>

definition forwardRelay ::
  "('e, 'w) Env \<Rightarrow> ('e, 'w) Pss \<Rightarrow> 'e PssMsg \<Rightarrow> (('e, 'w) Pss, error option \<times> ('e, 'w) Pss) run" where
  "forwardRelay env s msg =
     bind_run (storeMsg env msg)
       (\<lambda>(digest, err).
          case checkFwdCache env s None digest of
            (True, s1) \<Rightarrow> Return (None, s1)
          | (False, s1) \<Rightarrow>
              bind_run (eachConn (forwardConn env msg digest) (EachConn env (To msg) 256) (s1, 0))
                (\<lambda>(s2, sent).
                   if sent = 0 then Return (Some (Error ''unable to forward to any peers''), s2)
                   else Return (None, snd (addFwdCacheExpire env s2 digest))))"

text \<open>
  \<open>Forward\<close>, with the number of nested calls of \<open>Forward\<close> it may make: a message to
  the node itself goes to \<open>Process\<close>, whose reply to a handshake is forwarded in turn.
  With no call left the result is \<open>Diverge\<close>; the theorems on forwarding to another node
  hold for every positive number.
\<close>

primrec Forward ::
  "nat \<Rightarrow> ('e, 'w) Env \<Rightarrow> ('e, 'w) Pss \<Rightarrow> 'e PssMsg \<Rightarrow> (('e, 'w) Pss, error option \<times> ('e, 'w) Pss) run" where
  "Forward 0 env s msg = Diverge"
| "Forward (Suc n) env s msg =
     (if isSelfRecipient env msg then ProcessWith (Forward n env) env s msg
      else forwardRelay env s msg)"

definition Process ::
  "nat \<Rightarrow> ('e, 'w) Env \<Rightarrow> ('e, 'w) Pss \<Rightarrow> 'e PssMsg \<Rightarrow> (('e, 'w) Pss, error option \<times> ('e, 'w) Pss) run" where
  "Process n env = ProcessWith (Forward n env) env"

definition SendSym ::
  "nat \<Rightarrow> ('e, 'w) Env \<Rightarrow> ('e, 'w) Pss \<Rightarrow> slice \<Rightarrow> TopicType \<Rightarrow> bytes \<Rightarrow> (('e, 'w) Pss, error option \<times> ('e, 'w) Pss) run" where
  "SendSym n env = SendSymWith (Forward n env) env"

definition SendAsym ::
  "nat \<Rightarrow> ('e, 'w) Env \<Rightarrow> ('e, 'w) Pss \<Rightarrow> slice \<Rightarrow> TopicType \<Rightarrow> bytes \<Rightarrow> (('e, 'w) Pss, error option \<times> ('e, 'w) Pss) run" where
  "SendAsym n env = SendAsymWith (Forward n env) env"

text \<open>\<open>handlePssMsg\<close>: \<open>None\<close> is a message that is not a \<open>*PssMsg\<close>.\<close>

definition handlePssMsg ::
  "nat \<Rightarrow> ('e, 'w) Env \<Rightarrow> ('e, 'w) Pss \<Rightarrow> 'e PssMsg option \<Rightarrow> (('e, 'w) Pss, error option \<times> ('e, 'w) Pss) run" where
  "handlePssMsg n env s msg =
     (case msg of
        Some pssmsg \<Rightarrow>
          if \<not> isSelfRecipient env pssmsg then Forward n env s pssmsg
          else Process n env s pssmsg
      | None \<Rightarrow> Return (Some (Error ''invalid message''), s))"

text \<open>
  \<open>removePeerTopic\<close>, for a reader/writer that is a \<open>*PssReadWriter\<close> with field \<open>To\<close>
  (\<open>None\<close> for any other reader/writer).
\<close>

definition removePeerTopic :: "('e, 'w) Pss \<Rightarrow> Address option \<Rightarrow> TopicType \<Rightarrow> ('e, 'w) Pss" where
  "removePeerTopic s prwTo topic =
     (case prwTo of
        None \<Rightarrow> s
      | Some a \<Rightarrow>
          (case peerPool s a of
             None \<Rightarrow> s
           | Some m \<Rightarrow>
               if m(topic := None) = Map.empty then s\<lparr>peerPool := (peerPool s)(a := None)\<rparr>
               else s\<lparr>peerPool := (peerPool s)(a \<mapsto> m(topic := None))\<rparr>))"


text \<open>\<open>NewPss\<close>: empty pools and cache, the configured cache TTL, a new key store.\<close>

definition NewPss :: "int \<Rightarrow> 'w \<Rightarrow> ('e, 'w) Pss" where
  "NewPss ttl w0 =
     \<lparr>peerPool = Map.empty, fwdPool = Map.empty, reverseKeyPool = Map.empty, handlers = Map.empty,
      fwdcache = Map.empty, cachettl = ttl, recvsymkeys = [], whisper = w0, ticks = 0, wire = [],
      delivered = []\<rparr>"

section \<open>A small concrete environment\<close>

text \<open>
  A symbolic envelope library, a key store that numbers its keys, a clock that advances one
  unit per reading and an overlay with a given list of connections whose sends succeed
  for the peers in a given list of handles. The general theorems below hold for every
  environment; this one serves to run the operations on concrete inputs.
\<close>

datatype exEnvelope = SymSealed TopicType bytes bytes | AsymSealed TopicType bool bytes

definition exTopic :: "exEnvelope \<Rightarrow> TopicType" where
  "exTopic e = (case e of SymSealed t k p \<Rightarrow> t | AsymSealed t v p \<Rightarrow> t)"

definition exOpenSymmetric :: "exEnvelope \<Rightarrow> bytes \<Rightarrow> error + ReceivedMessage" where
  "exOpenSymmetric e key =
     (case e of
        SymSealed t k p \<Rightarrow>
          if k = key then Inr \<lparr>MsgPayload = p, SigValid = True\<rparr> else Inl (Error ''decrypt'')
      | AsymSealed t v p \<Rightarrow> Inl (Error ''decrypt''))"

definition exOpenAsymmetric :: "exEnvelope \<Rightarrow> error + ReceivedMessage" where
  "exOpenAsymmetric e =
     (case e of
        SymSealed t k p \<Rightarrow> Inl (Error ''decrypt'')
      | AsymSealed t v p \<Rightarrow> Inr \<lparr>MsgPayload = p, SigValid = v\<rparr>)"

definition exAddSymKeyDirect :: "(string \<times> bytes) list \<Rightarrow> bytes \<Rightarrow> (error + string) \<times> (string \<times> bytes) list" where
  "exAddSymKeyDirect w key =
     (if key = [] then (Inl (Error ''wrong key size''), w)
      else (Inr (CHR ''k'' # map (\<lambda>x. CHR ''+'') w), w @ [(CHR ''k'' # map (\<lambda>x. CHR ''+'') w, key)]))"

definition exGenerateSymKey :: "(string \<times> bytes) list \<Rightarrow> (error + string) \<times> (string \<times> bytes) list" where
  "exGenerateSymKey w = exAddSymKeyDirect w [0xAA, of_nat (length w)]"

definition exGetSymKey :: "(string \<times> bytes) list \<Rightarrow> string \<Rightarrow> error + bytes" where
  "exGetSymKey w keyid = (case map_of w keyid of None \<Rightarrow> Inl (Error ''non-existent key ID'') | Some k \<Rightarrow> Inr k)"

definition exWrap :: "bytes \<Rightarrow> MessageParams \<Rightarrow> error + exEnvelope" where
  "exWrap raw wparams = Inr (SymSealed (ParamTopic wparams) (KeySym wparams) (ParamPayload wparams))"

definition exEnv ::
  "slice \<Rightarrow> (OverlayConn \<times> nat \<times> bool) list \<Rightarrow> nat list \<Rightarrow> (exEnvelope, (string \<times> bytes) list) Env" where
  "exEnv base conns up =
     \<lparr>BaseAddr = base,
      EachConn = (\<lambda>target limit. conns),
      Store = (\<lambda>msg. Inr \<lparr>keyLen = 32, keyArray = replicate 32 7\<rparr>),
      peerSend = (\<lambda>pp msg. case pp of None \<Rightarrow> Some (Error ''no peer'')
                   | Some h \<Rightarrow> if h \<in> set up then None else Some (Error ''write failed'')),
      clock = (\<lambda>n. 1000 + int n),
      GetSymKey = exGetSymKey,
      AddSymKeyDirect = exAddSymKeyDirect,
      GenerateSymKey = exGenerateSymKey,
      OpenSymmetric = exOpenSymmetric,
      OpenAsymmetric = exOpenAsymmetric,
      envTopic = exTopic,
      NewSentMessage = (\<lambda>wparams. Inr (ParamPayload wparams)),
      Wrap = exWrap,
      callHandler = (\<lambda>h payload sender. None)\<rparr>"

text \<open>
  A connection with a one-byte address \<open>a\<close>, node id \<open>[a]\<close>, and its proximity flag; and
  one that is not a \<open>senderPeer\<close>.
\<close>

definition exConn :: "byte \<Rightarrow> bool \<Rightarrow> OverlayConn \<times> nat \<times> bool" where
  "exConn a prox = (\<lparr>connAddress = Some [a], connID = Some [a]\<rparr>, 0, prox)"

definition exRawConn :: "byte \<Rightarrow> bool \<Rightarrow> OverlayConn \<times> nat \<times> bool" where
  "exRawConn a prox = (\<lparr>connAddress = Some [a], connID = None\<rparr>, 0, prox)"

text \<open>A node with cache TTL 10 whose forwarding pool holds peers 1, 2 and 3.\<close>

definition exPss :: "(exEnvelope, (string \<times> bytes) list) Pss" where
  "exPss = (NewPss 10 [])\<lparr>fwdPool := [[1] \<mapsto> 1, [2] \<mapsto> 2, [3] \<mapsto> 3]\<rparr>"

definition exDigest :: pssDigest where
  "exDigest = replicate 32 7"

section \<open>Notions used in the statements\<close>

text \<open>
  The number of successful sends recorded on the wire, and the last sender the cache holds
  for a digest (nil when there is no entry).
\<close>

definition successes :: "(slice \<times> 'e PssMsg \<times> bool) list \<Rightarrow> nat" where
  "successes w = length (filter (\<lambda>x. snd (snd x)) w)"

definition lastSender :: "('e, 'w) Pss \<Rightarrow> pssDigest \<Rightarrow> slice" where
  "lastSender s d = (case fwdcache s d of None \<Rightarrow> None | Some e \<Rightarrow> receivedFrom e)"

text \<open>
  The peer state at an address and topic, or a new one; and the pool with that state
  written. The key operations are equal to writes of this form.
\<close>

definition peerOrNew :: "('e, 'w) Pss \<Rightarrow> Address \<Rightarrow> TopicType \<Rightarrow> pssPeer" where
  "peerOrNew s a t = (case peerOf s a t of None \<Rightarrow> newPeer | Some p \<Rightarrow> p)"

definition putPeer :: "('e, 'w) Pss \<Rightarrow> Address \<Rightarrow> TopicType \<Rightarrow> pssPeer \<Rightarrow> ('e, 'w) Pss" where
  "putPeer s a t p =
     s\<lparr>peerPool := (peerPool s)(a \<mapsto> (case peerPool s a of None \<Rightarrow> Map.empty | Some m \<Rightarrow> m)(t \<mapsto> p))\<rparr>"

text \<open>
  The invariant of the reverse index: the inbound key id of every peer state has an entry
  under that state's topic, and every id of the list of inbound ids has an entry.
\<close>

definition reverseIndexed :: "('e, 'w) Pss \<Rightarrow> bool" where
  "reverseIndexed s =
     ((\<forall>a t p. peerOf s a t = Some p \<and> recvsymkey p \<noteq> [] \<longrightarrow>
         (\<exists>r b. reverseKeyPool s (recvsymkey p) = Some r \<and> r t = Some b))
      \<and> (\<forall>k \<in> set (recvsymkeys s). \<exists>r t b. reverseKeyPool s k = Some r \<and> r t = Some b))"

section \<open>Concrete nodes, messages and states\<close>

text \<open>
  Addresses are one byte padded to the address width. \<open>exKnown\<close> knows the public key
  of address 1 on topic 1 only.
\<close>

definition exAddr :: "byte \<Rightarrow> Address" where "exAddr a = potAddress (Some [a])"

definition exKnown :: "(exEnvelope, (string \<times> bytes) list) Pss" where
  "exKnown = exPss\<lparr>peerPool := [exAddr 1 \<mapsto> [1 \<mapsto> newPeer\<lparr>pubkey := [5]\<rparr>]]\<rparr>"

text \<open>
  A node like \<open>exPss\<close> with a given cache TTL, a message for address 8, and the
  environment of node 9 with a given list of connections.
\<close>

definition exNode :: "int \<Rightarrow> (exEnvelope, (string \<times> bytes) list) Pss" where
  "exNode ttl = (NewPss ttl [])\<lparr>fwdPool := [[1] \<mapsto> 1, [2] \<mapsto> 2, [3] \<mapsto> 3]\<rparr>"

definition exMsg :: "exEnvelope PssMsg" where
  "exMsg = \<lparr>To = Some [8], Payload = SymSealed 1 [4] [5]\<rparr>"

definition exNet :: "(OverlayConn \<times> nat \<times> bool) list \<Rightarrow> (exEnvelope, (string \<times> bytes) list) Env" where
  "exNet conns = exEnv (Some [9]) conns [1, 2, 3]"

text \<open>
  The same environment with clock readings 100 units apart.
\<close>

definition exSlowNet :: "(OverlayConn \<times> nat \<times> bool) list \<Rightarrow> (exEnvelope, (string \<times> bytes) list) Env" where
  "exSlowNet conns = (exNet conns)\<lparr>clock := (\<lambda>n. 1000 + 100 * int n)\<rparr>"

text \<open>
  States of the forwarding scenarios: the digest received from peer 1; forwarded once to
  peer 2 under the slow clock; forwarded to peers 2 and 3 and received again from peer 4.
\<close>

definition exReceived :: "int \<Rightarrow> (exEnvelope, (string \<times> bytes) list) Pss" where
  "exReceived ttl = (exNode ttl)\<lparr>fwdcache := [exDigest \<mapsto> \<lparr>expiresAt = 0, receivedFrom = Some [1]\<rparr>]\<rparr>"

definition exForwarded :: "(exEnvelope, (string \<times> bytes) list) Pss" where
  "exForwarded = (exNode 10)\<lparr>fwdcache := [exDigest \<mapsto> \<lparr>expiresAt = 1310, receivedFrom = Some [1]\<rparr>],
        ticks := 4, wire := [(Some [2], exMsg, True)]\<rparr>"

definition exFanned :: "(exEnvelope, (string \<times> bytes) list) Pss" where
  "exFanned = (exNode 10)\<lparr>fwdcache := [exDigest \<mapsto> \<lparr>expiresAt = 1014, receivedFrom = Some [4]\<rparr>],
        ticks := 5, wire := [(Some [2], exMsg, True), (Some [3], exMsg, True)]\<rparr>"

text \<open>
  A handshake from node 1 to node 9 on topic 1, validly signed, whose payload is the sender's
  address byte followed by the key \<open>[4, 4]\<close>.
\<close>

definition exHandshake :: "exEnvelope PssMsg" where
  "exHandshake = \<lparr>To = Some [9], Payload = AsymSealed 1 True [1, 4, 4]\<rparr>"

text \<open>
  Node 9 after \<open>SetOutgoingSymmetricKey\<close> for address 1 and topic 1 with the key \<open>[4, 4]\<close>,
  and after \<open>SetIncomingSymmetricKey\<close> with the key \<open>[0xAA, 1]\<close>; and a message from
  node 1 sealed under the second key.
\<close>

definition exOutbound :: "(exEnvelope, (string \<times> bytes) list) Pss" where
  "exOutbound = exPss
     \<lparr>peerPool := [exAddr 1 \<mapsto> [1 \<mapsto> \<lparr>rw = None, pubkey = [], recvsymkey = [], sendsymkey = ''k'',
                                      symkeyexpires = 1000 + symkeyValidity\<rparr>]],
      whisper := [(''k'', [4, 4])],
      ticks := 1\<rparr>"

definition exSecured :: "(exEnvelope, (string \<times> bytes) list) Pss" where
  "exSecured = exPss
     \<lparr>peerPool := [exAddr 1 \<mapsto> [1 \<mapsto> \<lparr>rw = None, pubkey = [], recvsymkey = ''k+'', sendsymkey = ''k'',
                                      symkeyexpires = 1001 + symkeyValidity\<rparr>]],
      reverseKeyPool := [''k+'' \<mapsto> [1 \<mapsto> exAddr 1]],
      recvsymkeys := [''k+''],
      whisper := [(''k'', [4, 4]), (''k+'', [0xAA, 1])],
      ticks := 2\<rparr>"

definition exInbound :: "exEnvelope PssMsg" where
  "exInbound = \<lparr>To = Some [9], Payload = SymSealed 1 [0xAA, 1] [7, 7]\<rparr>"

section \<open>Basic facts\<close>

lemma bind_run_simps:
  "bind_run Diverge f = Diverge" "bind_run Panic f = Panic" "bind_run (Exit s) f = Exit s"
  "bind_run (Return x) f = f x"
  by (simp_all add: bind_run_def)

text \<open>
  \<open>storeMsg\<close> faults only when the digest length exceeds the capacity of the key the
  store returns; the length of the key does not matter.
\<close>

lemma storeMsg_Panic_iff:
  "(storeMsg env msg = Panic) = (\<exists>key. Store env msg = Inr key \<and> length (keyArray key) < digestLength)"
  by (simp add: storeMsg_def split: sum.splits)

lemma storeMsg_outcomes:
  "storeMsg env msg = Panic \<or> (\<exists>digest err. storeMsg env msg = Return (digest, err))"
  by (simp add: storeMsg_def split: sum.splits)

section \<open>The forward cache\<close>

lemma bytes_Equal_None: "bytes_Equal None r = (r = None \<or> r = Some [])"
  by (cases r) (auto simp: bytes_Equal_def sliceBytes_def)

lemma checkFwdCache_fst:
  "fst (checkFwdCache env s c d) =
     (\<exists>entry. fwdcache s d = Some entry \<and>
        (clock env (ticks s) < expiresAt entry \<or>
         (expiresAt entry = 0 \<and> bytes_Equal c (receivedFrom entry))))"
  by (cases "fwdcache s d") (auto simp: checkFwdCache_def timeNow_def)

text \<open>
  C1, as the code has it. \<open>checkFwdCache c d\<close> is true exactly when the cache holds an
  entry for \<open>d\<close> and either its expiry is after the current time, or its expiry is unset
  and \<open>c\<close> is byte-equal to the stored last sender. Byte equality does not tell a nil
  slice from an empty one, so rule (b) applies to a nil candidate too: a nil candidate
  matches an entry whose expiry is unset and whose last sender is unset or empty.
\<close>

theorem C1_checkFwdCache_iff:
  "fst (checkFwdCache env s c d) =
     (\<exists>entry. fwdcache s d = Some entry \<and>
        (clock env (ticks s) < expiresAt entry \<or>
         (expiresAt entry = 0 \<and> sliceBytes c = sliceBytes (receivedFrom entry))))
   \<and> fst (checkFwdCache env s None d) =
     (\<exists>entry. fwdcache s d = Some entry \<and>
        (clock env (ticks s) < expiresAt entry \<or>
         (expiresAt entry = 0 \<and> (receivedFrom entry = None \<or> receivedFrom entry = Some []))))"
  unfolding checkFwdCache_fst bytes_Equal_None by (simp add: bytes_Equal_def)

text \<open>
  C1 as stated fails: after \<open>addFwdCacheSender\<close> with a nil address on an empty cache the
  entry has expiry unset and last sender unset, and the check with a nil candidate is true.
\<close>

theorem C1_null_candidate_counterexample:
  "fwdcache (snd (addFwdCacheSender exPss None exDigest)) exDigest
     = Some \<lparr>expiresAt = 0, receivedFrom = None\<rparr>
   \<and> fst (checkFwdCache (exEnv (Some [9]) [] []) (snd (addFwdCacheSender exPss None exDigest)) None exDigest)"
  by (simp add: checkFwdCache_fst addFwdCacheSender_def exPss_def NewPss_def newCacheEntry_def
      bytes_Equal_def sliceBytes_def exEnv_def)

section \<open>Evaluation of the concrete scenarios\<close>

lemmas ex_defs = exNode_def exMsg_def exNet_def exSlowNet_def exEnv_def exConn_def exRawConn_def
  exDigest_def NewPss_def exPss_def exReceived_def exForwarded_def exFanned_def

lemmas op_defs = AddToCache_def storeMsg_def addFwdCacheSender_def addFwdCacheExpire_def
  checkFwdCache_def timeNow_def forwardRelay_def forwardConn_def isSelfRecipient_def
  bytes_Equal_def sliceBytes_def bind_run_simps digestLength_def newCacheEntry_def Let_def

lemmas key_defs = Process_def ProcessWith_def ProcessAsymWith_def SetOutgoingSymmetricKey_def
  SetIncomingSymmetricKey_def preparePeerTopic_def setPeer_def isSecured_def SendSym_def
  SendSymWith_def sendWith_def peerOf_def newPeer_def asPssKeyMsg_def

lemmas exw_defs = exOpenAsymmetric_def exOpenSymmetric_def exAddSymKeyDirect_def
  exGenerateSymKey_def exGetSymKey_def exWrap_def exTopic_def exAddr_def exHandshake_def
  exOutbound_def exSecured_def exInbound_def



lemma exKnown_reached: "AddPublicKey exPss (exAddr 1) 1 [5] = Return exKnown"
  by (simp add: AddPublicKey_def preparePeerTopic_def setPeer_def exPss_def NewPss_def exKnown_def)

text \<open>
  Scenario S2: the digest arrives from peer 1 and is forwarded to peers 2 and 3; the copy
  that arrives from peer 4 within the TTL is dropped without a send.
\<close>

lemma ex_S2_first_copy:
  "AddToCache (exNet [exConn 1 True, exConn 2 True, exConn 3 True]) (exNode 10) (Some [1]) exMsg
     = Return (None, exReceived 10)
   \<and> Forward (Suc 0) (exNet [exConn 1 True, exConn 2 True, exConn 3 True]) (exReceived 10) exMsg
     = Return (None, exFanned\<lparr>fwdcache := [exDigest \<mapsto> \<lparr>expiresAt = 1014, receivedFrom = Some [1]\<rparr>]\<rparr>)
   \<and> AddToCache (exNet [exConn 1 True, exConn 2 True, exConn 3 True])
        (exFanned\<lparr>fwdcache := [exDigest \<mapsto> \<lparr>expiresAt = 1014, receivedFrom = Some [1]\<rparr>]\<rparr>) (Some [4]) exMsg
     = Return (None, exFanned)
   \<and> Forward (Suc 0) (exNet [exConn 1 True, exConn 2 True, exConn 3 True]) exFanned exMsg
     = Return (None, exFanned\<lparr>ticks := 6\<rparr>)"
  by (simp add: ex_defs op_defs)

text \<open>
  With no connected peer nothing is sent and the error is returned.
\<close>

lemma ex_no_route:
  "Forward (Suc 0) (exNet []) (exNode 10) exMsg
     = Return (Some (Error ''unable to forward to any peers''), (exNode 10)\<lparr>ticks := 0\<rparr>)"
  by (simp add: ex_defs op_defs)

text \<open>
  The two key operations on node 9 for address 1 and topic 1 give the states \<open>exOutbound\<close>
  and \<open>exSecured\<close>.
\<close>

lemma ex_keys:
  "SetOutgoingSymmetricKey (exNet cs) exPss (exAddr 1) 1 [4, 4] = Return (None, exOutbound)
   \<and> SetIncomingSymmetricKey (exNet cs) exOutbound (exAddr 1) 1 [0xAA, 1] = Return (None, exSecured)"
  by (simp add: key_defs exw_defs ex_defs op_defs)

section \<open>Secured and active checks\<close>

lemma isSecured_Panic_iff:
  "(isSecured env s a t = Panic) = (\<exists>m. peerPool s a = Some m \<and> m t = None)"
  by (auto simp: isSecured_def timeNow_def Let_def split: option.splits)

lemma isActive_Panic_iff:
  "(isActive s a t = Panic) = (\<exists>m. peerPool s a = Some m \<and> m t = None)"
  by (auto simp: isActive_def split: option.splits)

lemma isSecured_not_Diverge: "isSecured env s a t \<noteq> Diverge"
  by (auto simp: isSecured_def timeNow_def Let_def split: option.splits)

lemma isSecured_frame:
  assumes "isSecured env s a t = Return (b, s1)"
  shows "s1 = s \<or> s1 = s\<lparr>ticks := Suc (ticks s)\<rparr>"
  using assms by (auto simp: isSecured_def timeNow_def Let_def split: option.splits if_splits)

lemma isSecured_present:
  assumes "peerOf s a t = Some p"
  shows "isSecured env s a t =
     Return (\<not> symkeyexpires p < clock env (ticks s) \<and> recvsymkey p \<noteq> [] \<and> sendsymkey p \<noteq> [],
             s\<lparr>ticks := Suc (ticks s)\<rparr>)"
  using assms by (auto simp: isSecured_def peerOf_def timeNow_def split: option.splits)

text \<open>
  C10. \<open>isSecured\<close> and \<open>isActive\<close> return false when the pool has no record for the
  address. When the pool has a record for the address but none for the topic, the lookup
  gives a nil peer state and both stop on the field access, and so does \<open>SendSym\<close>. They
  return exactly when the address is absent or has a state for the topic.
\<close>

theorem C10_secured_active_totality:
  "(peerPool s a = None \<longrightarrow> isSecured env s a t = Return (False, s) \<and> isActive s a t = Return False)
   \<and> ((\<exists>m. peerPool s a = Some m \<and> m t = None) \<longrightarrow> isSecured env s a t = Panic \<and> isActive s a t = Panic)
   \<and> ((\<exists>m. peerPool s (potAddress to) = Some m \<and> m t = None) \<longrightarrow> SendSym n env s to t msg = Panic)
   \<and> ((isSecured env s a t \<noteq> Panic) = (peerPool s a = None \<or> peerOf s a t \<noteq> None))
   \<and> ((isActive s a t \<noteq> Panic) = (peerPool s a = None \<or> peerOf s a t \<noteq> None))
   \<and> ((SendSym n env s to t msg \<noteq> Panic) \<longrightarrow> (peerPool s (potAddress to) = None \<or> peerOf s (potAddress to) t \<noteq> None))"
proof -
  have sec: "(isSecured env s b t = Panic) = (\<exists>m. peerPool s b = Some m \<and> m t = None)" for b
    by (rule isSecured_Panic_iff)
  have act: "(isActive s a t = Panic) = (\<exists>m. peerPool s a = Some m \<and> m t = None)"
    by (rule isActive_Panic_iff)
  have tot: "(\<exists>m. peerPool s b = Some m \<and> m t = None) = (\<not> (peerPool s b = None \<or> peerOf s b t \<noteq> None))" for b
    by (auto simp: peerOf_def split: option.splits)
  have c1: "peerPool s a = None \<longrightarrow> isSecured env s a t = Return (False, s) \<and> isActive s a t = Return False"
    by (simp add: isSecured_def isActive_def)
  have c2: "(\<exists>m. peerPool s a = Some m \<and> m t = None) \<longrightarrow> isSecured env s a t = Panic \<and> isActive s a t = Panic"
    using sec [of a] act by blast
  have send: "isSecured env s (potAddress to) t = Panic \<Longrightarrow> SendSym n env s to t msg = Panic"
    by (simp add: SendSym_def SendSymWith_def bind_run_simps)
  have c3: "(\<exists>m. peerPool s (potAddress to) = Some m \<and> m t = None) \<longrightarrow> SendSym n env s to t msg = Panic"
    using sec [of "potAddress to"] send by blast
  have c4: "(isSecured env s a t \<noteq> Panic) = (peerPool s a = None \<or> peerOf s a t \<noteq> None)"
    using sec [of a] tot [of a] by blast
  have c5: "(isActive s a t \<noteq> Panic) = (peerPool s a = None \<or> peerOf s a t \<noteq> None)"
    using act tot [of a] by blast
  have c6: "(SendSym n env s to t msg \<noteq> Panic) \<longrightarrow>
      (peerPool s (potAddress to) = None \<or> peerOf s (potAddress to) t \<noteq> None)"
    using c3 tot [of "potAddress to"] by blast
  show ?thesis
    using c1 c2 c3 c4 c5 c6 by blast
qed

text \<open>
  C10 at a concrete node: address 1 unknown, then known on topic 1 and queried on topic 2.
\<close>

theorem C10_witness:
  "isSecured (exEnv (Some [9]) [] []) exPss (exAddr 1) 2 = Return (False, exPss)
   \<and> isActive exPss (exAddr 1) 2 = Return False
   \<and> isSecured (exEnv (Some [9]) [] []) exKnown (exAddr 1) 2 = Panic
   \<and> isActive exKnown (exAddr 1) 2 = Panic
   \<and> SendSym 1 (exEnv (Some [9]) [] []) exKnown (Some [1]) 2 [7] = Panic"
  using C10_secured_active_totality [of exPss "exAddr 1" "exEnv (Some [9]) [] []" 2 "Some [1]" 1 "[7]"]
    C10_secured_active_totality [of exKnown "exAddr 1" "exEnv (Some [9]) [] []" 2 "Some [1]" 1 "[7]"]
  by (simp add: exKnown_def exPss_def NewPss_def exAddr_def)

text \<open>
  When \<open>isSecured\<close> returns false, \<open>SendSym\<close> returns the error at once: the state it
  returns is the one \<open>isSecured\<close> returned, and neither the envelope library nor the
  forwarder is called (the equation holds for every forwarder).
\<close>

lemma SendSymWith_not_secured:
  assumes "isSecured env s (potAddress to) t = Return (False, s1)"
  shows "SendSymWith fwd env s to t msg = Return (Some (Error ''missing complete handshake''), s1)"
  using assms by (simp add: SendSymWith_def bind_run_simps)

text \<open>
  C8 at the failing input: address 1 is known on topic 1 only (after \<open>AddPublicKey\<close>), and
  \<open>SendSym\<close> to address 1 on topic 2 stops on the nil peer state instead of returning the
  error.
\<close>

theorem C8_SendSym_unsecured_fault:
  "isSecured (exEnv (Some [9]) [] []) exKnown (potAddress (Some [1])) 2 = Panic
   \<and> SendSym 1 (exEnv (Some [9]) [] []) exKnown (Some [1]) 2 [7] = Panic
   \<and> AddPublicKey exPss (potAddress (Some [1])) 1 [5] = Return exKnown"
  by (simp add: SendSym_def SendSymWith_def bind_run_simps isSecured_def exKnown_def exPss_def
      NewPss_def exAddr_def AddPublicKey_def preparePeerTopic_def setPeer_def)

section \<open>Process: failures of the asymmetric branch\<close>

text \<open>
  C7. For a message that no symmetric key opened: when asymmetric decryption fails,
  \<open>Process\<close> returns nil and leaves the state as it was; when the signature does not
  validate it returns the error \<open>invalid signature\<close>; when the payload fails the test for
  a handshake key message it returns the error \<open>invalid handshake msg\<close>.
\<close>

theorem C7_asym_failures:
  assumes "trySymKeys env s (Payload m) (recvsymkeys s) = None"
  shows "(\<forall>err. OpenAsymmetric env (Payload m) = Inl err \<longrightarrow> Process n env s m = Return (None, s))
    \<and> (\<forall>r. OpenAsymmetric env (Payload m) = Inr r \<and> \<not> SigValid r \<longrightarrow>
          Process n env s m = Return (Some (Error ''invalid signature''), s))
    \<and> (\<forall>r. OpenAsymmetric env (Payload m) = Inr r \<and> SigValid r \<and>
            asPssKeyMsg (BytesValue (MsgPayload r)) = None \<longrightarrow>
          Process n env s m = Return (Some (Error ''invalid handshake msg''), s))"
  using assms by (simp add: Process_def ProcessWith_def ProcessAsymWith_def)

text \<open>
  C7 on three envelopes: a symmetric one, one with a bad signature, one with an empty payload.
\<close>

theorem C7_witness:
  "Process 0 (exEnv (Some [9]) [] []) exPss \<lparr>To = Some [9], Payload = SymSealed 1 [4] [5]\<rparr> = Return (None, exPss)
   \<and> Process 0 (exEnv (Some [9]) [] []) exPss \<lparr>To = Some [9], Payload = AsymSealed 1 False [1, 4]\<rparr>
       = Return (Some (Error ''invalid signature''), exPss)
   \<and> Process 0 (exEnv (Some [9]) [] []) exPss \<lparr>To = Some [9], Payload = AsymSealed 1 True []\<rparr>
       = Return (Some (Error ''invalid handshake msg''), exPss)"
  using C7_asym_failures [of "exEnv (Some [9]) [] []" exPss "\<lparr>To = Some [9], Payload = SymSealed 1 [4] [5]\<rparr>" 0]
    C7_asym_failures [of "exEnv (Some [9]) [] []" exPss "\<lparr>To = Some [9], Payload = AsymSealed 1 False [1, 4]\<rparr>" 0]
    C7_asym_failures [of "exEnv (Some [9]) [] []" exPss "\<lparr>To = Some [9], Payload = AsymSealed 1 True []\<rparr>" 0]
  by (simp add: exPss_def NewPss_def exEnv_def exOpenAsymmetric_def asPssKeyMsg_def)

section \<open>Forward: the fan-out\<close>

lemma successes_simps:
  "successes [] = 0" "successes (w @ v) = successes w + successes v"
  "successes [(a, m, ok)] = (if ok then 1 else 0)"
  by (simp_all add: successes_def)

lemma checkFwdCache_snd:
  "snd (checkFwdCache env s c d) = s \<or> snd (checkFwdCache env s c d) = s\<lparr>ticks := Suc (ticks s)\<rparr>"
  by (auto simp: checkFwdCache_def timeNow_def split: option.splits)

lemma checkFwdCache_unset_sender:
  assumes "fwdcache s d = Some e" "expiresAt e = 0" "bytes_Equal a (receivedFrom e)"
  shows "fst (checkFwdCache env s a d)"
  using assms by (simp add: checkFwdCache_def timeNow_def)

lemma forwardConn_Exit:
  "(forwardConn env msg d (op, po, prox) (s, sent) = Exit s') = (connID op = None \<and> s' = s)"
  by (cases "connID op"; cases "checkFwdCache env s (connAddress op) d")
    (auto simp: forwardConn_def Let_def split: option.splits)

lemma forwardConn_outcome:
  "(connID op = None \<and> forwardConn env msg d (op, po, prox) (s, sent) = Exit s)
   \<or> (connID op \<noteq> None \<and> (\<exists>x. forwardConn env msg d (op, po, prox) (s, sent) = Return x))"
  by (cases "connID op"; cases "checkFwdCache env s (connAddress op) d")
    (auto simp: forwardConn_def Let_def split: option.splits)

lemma forwardConn_step:
  assumes "forwardConn env msg d (op, po, prox) (s, sent) = Return (cont, s', sent')"
  shows "s' = s\<lparr>ticks := ticks s', wire := wire s'\<rparr> \<and> ticks s \<le> ticks s' \<and>
     ((wire s' = wire s \<and> sent' = sent) \<or>
      (wire s' = wire s @ [(connAddress op, msg, False)] \<and> sent' = sent \<and> cont
         \<and> \<not> fst (checkFwdCache env s (connAddress op) d)) \<or>
      (wire s' = wire s @ [(connAddress op, msg, True)] \<and> sent' = Suc sent
         \<and> cont = (\<not> bytes_Equal (To msg) (connAddress op) \<and> prox)
         \<and> \<not> fst (checkFwdCache env s (connAddress op) d)))"
proof (cases "connID op")
  case None
  with assms show ?thesis by (auto simp: forwardConn_def)
next
  case (Some spid)
  obtain skip s1 where chk: "checkFwdCache env s (connAddress op) d = (skip, s1)"
    by (cases "checkFwdCache env s (connAddress op) d")
  have s1: "s1 = s \<or> s1 = s\<lparr>ticks := Suc (ticks s)\<rparr>"
    using checkFwdCache_snd [of env s "connAddress op" d] chk by simp
  show ?thesis
  proof (cases skip)
    case True
    with assms Some chk s1 show ?thesis by (auto simp: forwardConn_def)
  next
    case False
    show ?thesis
    proof (cases "peerSend env (fwdPool s spid) msg")
      case None
      with assms Some chk s1 False show ?thesis
        by (auto simp: forwardConn_def Let_def split: if_splits)
    next
      case (Some err)
      with assms \<open>connID op = Some spid\<close> chk s1 False show ?thesis
        by (auto simp: forwardConn_def Let_def)
    qed
  qed
qed

text \<open>
  The iteration ends by returning or by the exit of the process. In both cases the state
  it ends in differs from the one it started in by the clock readings and the recorded
  sends only, and no send went to a connection that the cache check would skip for an
  entry with unset expiry.
\<close>

lemma eachConn_forwardConn_ends:
  assumes "eachConn (forwardConn env msg d) cs (s, sent) = R"
    and "R = Return (s', sent') \<or> R = Exit s'"
  shows "s' = s\<lparr>ticks := ticks s', wire := wire s'\<rparr> \<and> ticks s \<le> ticks s' \<and>
     (\<exists>new. wire s' = wire s @ new \<and> (R = Return (s', sent') \<longrightarrow> sent' = sent + successes new)
        \<and> (\<forall>x \<in> set new. snd x = (msg, True) \<or> snd x = (msg, False))
        \<and> (\<forall>e. fwdcache s d = Some e \<and> expiresAt e = 0 \<longrightarrow>
              (\<forall>x \<in> set new. \<not> bytes_Equal (fst x) (receivedFrom e))))"
  using assms
proof (induction cs arbitrary: s sent)
  case Nil
  then have "s' = s" "sent' = sent \<or> R \<noteq> Return (s', sent')" by auto
  then show ?case by (intro conjI exI [of _ "[]"]) (auto simp: successes_simps)
next
  case (Cons c cs)
  obtain op po prox where c: "c = (op, po, prox)" by (cases c)
  show ?case
  proof (cases "connID op")
    case None
    then have "forwardConn env msg d (op, po, prox) (s, sent) = Exit s"
      using forwardConn_outcome [of op env msg d po prox s sent] by auto
    with Cons.prems c have "R = Exit s" "s' = s" by (auto simp: bind_run_simps)
    then show ?thesis by (intro conjI exI [of _ "[]"]) (auto simp: successes_simps)
  next
    case (Some spid)
    then obtain x where "forwardConn env msg d (op, po, prox) (s, sent) = Return x"
      using forwardConn_outcome [of op env msg d po prox s sent] by auto
    then obtain cont s1 sent1 where
      st: "forwardConn env msg d (op, po, prox) (s, sent) = Return (cont, s1, sent1)"
      by (cases x) auto
    note step = forwardConn_step [OF st]
    have frame1: "s1 = s\<lparr>ticks := ticks s1, wire := wire s1\<rparr>" and mono1: "ticks s \<le> ticks s1"
      using step by simp_all
    have cache1: "fwdcache s1 = fwdcache s"
      by (subst frame1) simp
    have new1: "\<exists>new. wire s1 = wire s @ new \<and> sent1 = sent + successes new
          \<and> (\<forall>x \<in> set new. snd x = (msg, True) \<or> snd x = (msg, False))
          \<and> (\<forall>e. fwdcache s d = Some e \<and> expiresAt e = 0 \<longrightarrow>
                (\<forall>x \<in> set new. \<not> bytes_Equal (fst x) (receivedFrom e)))"
    proof -
      from step consider
        (same) "wire s1 = wire s" "sent1 = sent"
        | (failed) "wire s1 = wire s @ [(connAddress op, msg, False)]" "sent1 = sent"
            "\<not> fst (checkFwdCache env s (connAddress op) d)"
        | (ok) "wire s1 = wire s @ [(connAddress op, msg, True)]" "sent1 = Suc sent"
            "\<not> fst (checkFwdCache env s (connAddress op) d)"
        by blast
      then show ?thesis
      proof cases
        case same
        then show ?thesis by (intro exI [of _ "[]"]) (simp add: successes_simps)
      next
        case failed
        then show ?thesis
          by (intro exI [of _ "[(connAddress op, msg, False)]"])
            (auto simp: successes_simps dest: checkFwdCache_unset_sender)
      next
        case ok
        then show ?thesis
          by (intro exI [of _ "[(connAddress op, msg, True)]"])
            (auto simp: successes_simps dest: checkFwdCache_unset_sender)
      qed
    qed
    show ?thesis
    proof (cases cont)
      case False
      with Cons.prems c st have R: "R = Return (s1, sent1)" by (simp add: bind_run_simps)
      with Cons.prems(2) have "s' = s1" "sent' = sent1" by simp_all
      with frame1 mono1 new1 show ?thesis by auto
    next
      case True
      with Cons.prems c st have rest: "eachConn (forwardConn env msg d) cs (s1, sent1) = R"
        by (simp add: bind_run_simps)
      note ih = Cons.IH [OF rest Cons.prems(2)]
      from ih have frame2: "s' = s1\<lparr>ticks := ticks s', wire := wire s'\<rparr>" and mono2: "ticks s1 \<le> ticks s'"
        by simp_all
      from ih obtain new2 where new2: "wire s' = wire s1 @ new2"
          "R = Return (s', sent') \<longrightarrow> sent' = sent1 + successes new2"
          "\<forall>x \<in> set new2. snd x = (msg, True) \<or> snd x = (msg, False)"
          "\<forall>e. fwdcache s1 d = Some e \<and> expiresAt e = 0 \<longrightarrow>
                (\<forall>x \<in> set new2. \<not> bytes_Equal (fst x) (receivedFrom e))"
        by blast
      from new1 obtain new1' where new1': "wire s1 = wire s @ new1'" "sent1 = sent + successes new1'"
          "\<forall>x \<in> set new1'. snd x = (msg, True) \<or> snd x = (msg, False)"
          "\<forall>e. fwdcache s d = Some e \<and> expiresAt e = 0 \<longrightarrow>
                (\<forall>x \<in> set new1'. \<not> bytes_Equal (fst x) (receivedFrom e))"
        by blast
      have frame: "s' = s\<lparr>ticks := ticks s', wire := wire s'\<rparr>"
        by (subst frame2, subst frame1) simp
      have "wire s' = wire s @ (new1' @ new2)
          \<and> (R = Return (s', sent') \<longrightarrow> sent' = sent + successes (new1' @ new2))
          \<and> (\<forall>x \<in> set (new1' @ new2). snd x = (msg, True) \<or> snd x = (msg, False))
          \<and> (\<forall>e. fwdcache s d = Some e \<and> expiresAt e = 0 \<longrightarrow>
                (\<forall>x \<in> set (new1' @ new2). \<not> bytes_Equal (fst x) (receivedFrom e)))"
        using new1' new2 cache1 by (auto simp: successes_simps)
      then show ?thesis using frame mono1 mono2 by (intro conjI exI [of _ "new1' @ new2"]) auto
    qed
  qed
qed

lemma eachConn_forwardConn:
  assumes "eachConn (forwardConn env msg d) cs (s, sent) = Return (s', sent')"
  shows "s' = s\<lparr>ticks := ticks s', wire := wire s'\<rparr> \<and> ticks s \<le> ticks s' \<and>
     (\<exists>new. wire s' = wire s @ new \<and> sent' = sent + successes new
        \<and> (\<forall>x \<in> set new. snd x = (msg, True) \<or> snd x = (msg, False))
        \<and> (\<forall>e. fwdcache s d = Some e \<and> expiresAt e = 0 \<longrightarrow>
              (\<forall>x \<in> set new. \<not> bytes_Equal (fst x) (receivedFrom e))))"
  using eachConn_forwardConn_ends [OF assms, of s' sent'] by simp

lemma eachConn_forwardConn_Exit:
  assumes "eachConn (forwardConn env msg d) cs (s, sent) = Exit s'"
  shows "s' = s\<lparr>ticks := ticks s', wire := wire s'\<rparr> \<and> ticks s \<le> ticks s' \<and>
     (\<exists>new. wire s' = wire s @ new
        \<and> (\<forall>x \<in> set new. snd x = (msg, True) \<or> snd x = (msg, False))
        \<and> (\<forall>e. fwdcache s d = Some e \<and> expiresAt e = 0 \<longrightarrow>
              (\<forall>x \<in> set new. \<not> bytes_Equal (fst x) (receivedFrom e))))"
  using eachConn_forwardConn_ends [OF assms, of s' 0] by auto

text \<open>
  The iteration returns or the process exits; it exits only at a connection that is not a
  \<open>senderPeer\<close>, and at once when the first connection is one.
\<close>

lemma eachConn_forwardConn_total:
  "(\<exists>x. eachConn (forwardConn env msg d) cs (s, sent) = Return x)
   \<or> ((\<exists>s'. eachConn (forwardConn env msg d) cs (s, sent) = Exit s')
       \<and> (\<exists>c \<in> set cs. connID (fst c) = None))"
proof (induction cs arbitrary: s sent)
  case Nil
  then show ?case by simp
next
  case (Cons c cs)
  obtain op po prox where c: "c = (op, po, prox)" by (cases c)
  from forwardConn_outcome [of op env msg d po prox s sent] show ?case
  proof
    assume "connID op = None \<and> forwardConn env msg d (op, po, prox) (s, sent) = Exit s"
    then show ?thesis by (auto simp: c bind_run_simps)
  next
    assume "connID op \<noteq> None \<and> (\<exists>x. forwardConn env msg d (op, po, prox) (s, sent) = Return x)"
    then obtain cont s1 sent1 where
      st: "forwardConn env msg d (op, po, prox) (s, sent) = Return (cont, s1, sent1)"
      by (metis prod_cases3)
    show ?thesis
    proof (cases cont)
      case False
      with st show ?thesis by (simp add: c bind_run_simps)
    next
      case True
      with st Cons.IH [of s1 sent1] show ?thesis by (auto simp: c bind_run_simps)
    qed
  qed
qed


lemma forwardRelay_cases:
  assumes "storeMsg env msg = Return (digest, err)"
  shows "if fst (checkFwdCache env s None digest)
     then forwardRelay env s msg = Return (None, snd (checkFwdCache env s None digest))
     else (\<exists>s2. eachConn (forwardConn env msg digest) (EachConn env (To msg) 256)
                  (snd (checkFwdCache env s None digest), 0) = Exit s2
              \<and> forwardRelay env s msg = Exit s2
              \<and> (\<exists>c \<in> set (EachConn env (To msg) 256). connID (fst c) = None))
        \<or> (\<exists>s2 sent. eachConn (forwardConn env msg digest) (EachConn env (To msg) 256)
                (snd (checkFwdCache env s None digest), 0) = Return (s2, sent) \<and>
              forwardRelay env s msg =
                (if sent = 0 then Return (Some (Error ''unable to forward to any peers''), s2)
                 else Return (None, snd (addFwdCacheExpire env s2 digest))))"
proof -
  obtain hit s1 where chk: "checkFwdCache env s None digest = (hit, s1)"
    by (cases "checkFwdCache env s None digest")
  show ?thesis
  proof (cases hit)
    case True
    with assms chk show ?thesis by (simp add: forwardRelay_def bind_run_simps)
  next
    case False
    from eachConn_forwardConn_total [of env msg digest "EachConn env (To msg) 256" s1 0]
    show ?thesis
    proof
      assume "\<exists>x. eachConn (forwardConn env msg digest) (EachConn env (To msg) 256) (s1, 0) = Return x"
      then obtain s2 sent where
        "eachConn (forwardConn env msg digest) (EachConn env (To msg) 256) (s1, 0) = Return (s2, sent)"
        by (metis surj_pair)
      with assms chk False show ?thesis by (simp add: forwardRelay_def bind_run_simps)
    next
      assume "(\<exists>s'. eachConn (forwardConn env msg digest) (EachConn env (To msg) 256) (s1, 0) = Exit s')
       \<and> (\<exists>c \<in> set (EachConn env (To msg) 256). connID (fst c) = None)"
      with assms chk False show ?thesis by (auto simp: forwardRelay_def bind_run_simps)
    qed
  qed
qed

lemma addFwdCacheExpire_snd:
  "snd (addFwdCacheExpire env s d) =
     s\<lparr>ticks := Suc (ticks s),
        fwdcache := (fwdcache s)(d \<mapsto>
          (case fwdcache s d of None \<Rightarrow> newCacheEntry | Some e \<Rightarrow> e)\<lparr>expiresAt := clock env (ticks s) + cachettl s\<rparr>)\<rparr>"
  by (simp add: addFwdCacheExpire_def timeNow_def Let_def)



lemma forwardRelay_ReturnD:
  assumes "storeMsg env msg = Return (digest, err)" and "forwardRelay env s msg = Return (r, s')"
  shows "(fst (checkFwdCache env s None digest) \<and> r = None \<and> s' = snd (checkFwdCache env s None digest))
    \<or> (\<not> fst (checkFwdCache env s None digest) \<and>
        (\<exists>s2 sent. eachConn (forwardConn env msg digest) (EachConn env (To msg) 256)
                (snd (checkFwdCache env s None digest), 0) = Return (s2, sent) \<and>
           (sent = 0 \<longrightarrow> r = Some (Error ''unable to forward to any peers'') \<and> s' = s2) \<and>
           (sent \<noteq> 0 \<longrightarrow> r = None \<and> s' = snd (addFwdCacheExpire env s2 digest))))"
proof -
  obtain hit s1 where chk: "checkFwdCache env s None digest = (hit, s1)"
    by (cases "checkFwdCache env s None digest")
  show ?thesis
  proof (cases hit)
    case True
    with assms chk show ?thesis by (auto simp: forwardRelay_def bind_run_simps)
  next
    case False
    with assms chk show ?thesis
      by (cases "eachConn (forwardConn env msg digest) (EachConn env (To msg) 256) (s1, 0)")
        (auto simp: forwardRelay_def bind_run_simps split: if_splits)
  qed
qed

lemma forwardRelay_ExitD:
  assumes "storeMsg env msg = Return (digest, err)" and "forwardRelay env s msg = Exit s'"
  shows "\<not> fst (checkFwdCache env s None digest) \<and>
     eachConn (forwardConn env msg digest) (EachConn env (To msg) 256)
       (snd (checkFwdCache env s None digest), 0) = Exit s'"
proof -
  obtain hit s1 where chk: "checkFwdCache env s None digest = (hit, s1)"
    by (cases "checkFwdCache env s None digest")
  show ?thesis
  proof (cases hit)
    case True
    with assms chk show ?thesis by (auto simp: forwardRelay_def bind_run_simps)
  next
    case False
    with assms chk show ?thesis
      by (cases "eachConn (forwardConn env msg digest) (EachConn env (To msg) 256) (s1, 0)")
        (auto simp: forwardRelay_def bind_run_simps split: if_splits)
  qed
qed




text \<open>
  C3, as the code has it. When the digest's entry has its expiry unset or still in the
  future, \<open>Forward\<close> calls \<open>Send\<close> on no connection whose address is byte-equal to
  the recorded last sender, whether it returns or the process ends in the fan-out (it
  returns when every connection is a \<open>senderPeer\<close>): with a future expiry the flood guard
  ends \<open>Forward\<close> before the fan-out, and with an unset expiry such a candidate (one that
  is a \<open>senderPeer\<close>) is skipped and the iteration goes on with the next connection. The
  rule is tied to the unset expiry: the check is false for every candidate on an entry
  whose expiry is set and has passed.
\<close>

theorem C3_no_bounce_unexpired:
  assumes "\<not> isSelfRecipient env msg" and "storeMsg env msg = Return (digest, err)"
    and "fwdcache s digest = Some e" and "expiresAt e = 0 \<or> clock env (ticks s) < expiresAt e"
  shows "(\<exists>s' new. ((\<exists>r. Forward (Suc n) env s msg = Return (r, s')) \<or> Forward (Suc n) env s msg = Exit s')
            \<and> wire s' = wire s @ new \<and>
            (\<forall>x \<in> set new. \<not> bytes_Equal (fst x) (receivedFrom e)))
    \<and> ((\<forall>c \<in> set (EachConn env (To msg) 256). connID (fst c) \<noteq> None) \<longrightarrow>
          (\<exists>r s'. Forward (Suc n) env s msg = Return (r, s')))
    \<and> (expiresAt e = 0 \<longrightarrow>
         (\<forall>st sent op po prox cs.
            fwdcache st digest = Some e \<and> connID op \<noteq> None \<and> bytes_Equal (connAddress op) (receivedFrom e) \<longrightarrow>
              eachConn (forwardConn env msg digest) ((op, po, prox) # cs) (st, sent)
                = eachConn (forwardConn env msg digest) cs (st\<lparr>ticks := Suc (ticks st)\<rparr>, sent)))
    \<and> (\<forall>st a e'. fwdcache st digest = Some e' \<and> expiresAt e' \<noteq> 0 \<and> \<not> clock env (ticks st) < expiresAt e' \<longrightarrow>
          \<not> fst (checkFwdCache env st a digest))"
proof (intro conjI)
  let ?s1 = "snd (checkFwdCache env s None digest)"
  let ?fan = "eachConn (forwardConn env msg digest) (EachConn env (To msg) 256) (?s1, 0)"
  have s1: "?s1 = s \<or> ?s1 = s\<lparr>ticks := Suc (ticks s)\<rparr>"
    by (rule checkFwdCache_snd)
  have wire1: "wire ?s1 = wire s" using s1 by auto
  have fwd: "Forward (Suc n) env s msg = forwardRelay env s msg"
    using assms(1) by simp
  note cases = forwardRelay_cases [OF assms(2), of s]
  show "\<exists>s' new. ((\<exists>r. Forward (Suc n) env s msg = Return (r, s')) \<or> Forward (Suc n) env s msg = Exit s')
            \<and> wire s' = wire s @ new \<and>
            (\<forall>x \<in> set new. \<not> bytes_Equal (fst x) (receivedFrom e))"
  proof (cases "fst (checkFwdCache env s None digest)")
    case True
    with cases have "Forward (Suc n) env s msg = Return (None, ?s1)" by (simp add: assms(1))
    with wire1 show ?thesis by (intro exI [of _ ?s1] exI [of _ "[]"]) auto
  next
    case False
    then have "\<not> clock env (ticks s) < expiresAt e"
      using assms(3) by (simp add: checkFwdCache_fst)
    with assms(4) have unset: "expiresAt e = 0" by blast
    have cache1: "fwdcache ?s1 digest = Some e" using s1 assms(3) by auto
    from False cases consider
      (exit) s2 where "?fan = Exit s2" "forwardRelay env s msg = Exit s2"
      | (ret) s2 sent where "?fan = Return (s2, sent)"
        "forwardRelay env s msg =
           (if sent = 0 then Return (Some (Error ''unable to forward to any peers''), s2)
            else Return (None, snd (addFwdCacheExpire env s2 digest)))"
      by auto
    then show ?thesis
    proof cases
      case exit
      from eachConn_forwardConn_Exit [OF exit(1)] cache1 unset obtain new where
        new: "wire s2 = wire ?s1 @ new" "\<forall>x \<in> set new. \<not> bytes_Equal (fst x) (receivedFrom e)"
        by blast
      with exit(2) wire1 show ?thesis
        by (intro exI [of _ s2] exI [of _ new]) (simp add: assms(1))
    next
      case ret
      from eachConn_forwardConn [OF ret(1)] cache1 unset obtain new where
        new: "wire s2 = wire ?s1 @ new" "\<forall>x \<in> set new. \<not> bytes_Equal (fst x) (receivedFrom e)"
        by blast
      show ?thesis
      proof (cases "sent = 0")
        case True
        with ret(2) new wire1 show ?thesis
          by (intro exI [of _ s2] exI [of _ new]) (simp add: assms(1))
      next
        case False
        with ret(2) new wire1 show ?thesis
          by (intro exI [of _ "snd (addFwdCacheExpire env s2 digest)"] exI [of _ new])
            (simp add: assms(1) addFwdCacheExpire_snd)
      qed
    qed
  qed
  show "(\<forall>c \<in> set (EachConn env (To msg) 256). connID (fst c) \<noteq> None) \<longrightarrow>
          (\<exists>r s'. Forward (Suc n) env s msg = Return (r, s'))"
    using cases by (auto simp: assms(1) split: if_splits)
  show "expiresAt e = 0 \<longrightarrow>
         (\<forall>st sent op po prox cs.
            fwdcache st digest = Some e \<and> connID op \<noteq> None \<and> bytes_Equal (connAddress op) (receivedFrom e) \<longrightarrow>
              eachConn (forwardConn env msg digest) ((op, po, prox) # cs) (st, sent)
                = eachConn (forwardConn env msg digest) cs (st\<lparr>ticks := Suc (ticks st)\<rparr>, sent))"
    by (auto simp: forwardConn_def checkFwdCache_def timeNow_def bind_run_simps)
  show "\<forall>st a e'. fwdcache st digest = Some e' \<and> expiresAt e' \<noteq> 0 \<and> \<not> clock env (ticks st) < expiresAt e' \<longrightarrow>
          \<not> fst (checkFwdCache env st a digest)"
    by (auto simp: checkFwdCache_fst)
qed

text \<open>
  C3 on scenario S3: the digest came from peer 1, the overlay yields peer 1 first; it is
  skipped and the message goes to peer 2.
\<close>

theorem C3_witness:
  "\<not> isSelfRecipient (exSlowNet [exConn 1 True, exConn 2 True]) exMsg
   \<and> storeMsg (exSlowNet [exConn 1 True, exConn 2 True]) exMsg = Return (exDigest, None)
   \<and> fwdcache (exReceived 10) exDigest = Some \<lparr>expiresAt = 0, receivedFrom = Some [1]\<rparr>
   \<and> Forward (Suc 0) (exSlowNet [exConn 1 True, exConn 2 True]) (exReceived 10) exMsg = Return (None, exForwarded)
   \<and> wire exForwarded = wire (exReceived 10) @ [(Some [2], exMsg, True)]
   \<and> eachConn (forwardConn (exSlowNet [exConn 1 True, exConn 2 True]) exMsg exDigest)
        [exConn 1 True, exConn 2 True] (exReceived 10, 0)
      = eachConn (forwardConn (exSlowNet [exConn 1 True, exConn 2 True]) exMsg exDigest)
        [exConn 2 True] ((exReceived 10)\<lparr>ticks := Suc (ticks (exReceived 10))\<rparr>, 0)"
proof -
  let ?env = "exSlowNet [exConn 1 True, exConn 2 True]"
  have h1: "\<not> isSelfRecipient ?env exMsg"
    by (simp add: ex_defs op_defs)
  have h2: "storeMsg ?env exMsg = Return (exDigest, None)"
    by (simp add: ex_defs op_defs)
  have h3: "fwdcache (exReceived 10) exDigest = Some \<lparr>expiresAt = 0, receivedFrom = Some [1]\<rparr>"
    by (simp add: ex_defs)
  have h4: "expiresAt \<lparr>expiresAt = 0, receivedFrom = Some [1]\<rparr> = 0
      \<or> clock ?env (ticks (exReceived 10)) < expiresAt \<lparr>expiresAt = 0, receivedFrom = Some [1]\<rparr>"
    by simp
  have run: "Forward (Suc 0) ?env (exReceived 10) exMsg = Return (None, exForwarded)"
    by (simp add: ex_defs op_defs)
  have w: "wire exForwarded = wire (exReceived 10) @ [(Some [2], exMsg, True)]"
    by (simp add: ex_defs)
  have skip: "fwdcache (exReceived 10) exDigest = Some \<lparr>expiresAt = 0, receivedFrom = Some [1]\<rparr> \<and>
      connID (fst (exConn 1 True)) \<noteq> None \<and>
      bytes_Equal (connAddress (fst (exConn 1 True))) (receivedFrom \<lparr>expiresAt = 0, receivedFrom = Some [1]\<rparr>)"
    by (simp add: ex_defs bytes_Equal_def)
  have unset: "expiresAt \<lparr>expiresAt = 0, receivedFrom = Some [1]\<rparr> = 0"
    by simp
  note C3_no_bounce_unexpired [OF h1 h2 h3 h4, of 0, THEN conjunct2, THEN conjunct2, THEN conjunct1,
      rule_format, OF unset skip, of 0 True "[exConn 2 True]" 0]
  then have "eachConn (forwardConn ?env exMsg exDigest) [exConn 1 True, exConn 2 True] (exReceived 10, 0)
      = eachConn (forwardConn ?env exMsg exDigest)
        [exConn 2 True] ((exReceived 10)\<lparr>ticks := Suc (ticks (exReceived 10))\<rparr>, 0)"
    by (simp add: exConn_def)
  with h1 h2 h3 run w show ?thesis by blast
qed

text \<open>
  C3 as stated fails. The digest arrives from peer 1 and is forwarded to peer 2, which sets
  its expiry (TTL 10); the digest arrives from peer 1 again after the expiry; the entry has
  last sender peer 1 and a passed expiry, and \<open>Forward\<close> sends the message to peer 1.
\<close>

theorem C3_stale_expiry_counterexample:
  "AddToCache (exSlowNet [exConn 1 True, exConn 2 True]) (exNode 10) (Some [1]) exMsg = Return (None, exReceived 10)
   \<and> Forward (Suc 0) (exSlowNet [exConn 1 True, exConn 2 True]) (exReceived 10) exMsg = Return (None, exForwarded)
   \<and> AddToCache (exSlowNet [exConn 1 True, exConn 2 True]) exForwarded (Some [1]) exMsg = Return (None, exForwarded)
   \<and> lastSender exForwarded exDigest = Some [1]
   \<and> Forward (Suc 0) (exSlowNet [exConn 1 True, exConn 2 True]) exForwarded exMsg
       = Return (None, exForwarded\<lparr>fwdcache := [exDigest \<mapsto> \<lparr>expiresAt = 1710, receivedFrom = Some [1]\<rparr>],
           ticks := 8,
           wire := [(Some [2], exMsg, True), (Some [1], exMsg, True), (Some [2], exMsg, True)]\<rparr>)"
  by (simp add: ex_defs op_defs lastSender_def)

text \<open>
  C5, as the code has it. A successful send increments \<open>sent\<close> by one and is recorded on
  the wire; the callback leaves the forward cache as it was, so the sent-to peer is not
  recorded as last sender; and after \<open>Forward\<close> for another node the last sender of every
  digest is the one it was before. \<open>Forward\<close> changes the cache only after the fan-out and
  only when a send succeeded: it then sets the expiry of the digest's entry. When the
  process ends in the fan-out the cache is as it was.
\<close>

theorem C5_fanout_leaves_cache:
  "(forwardConn env msg d (op, po, prox) (s, sent) = Return (cont, s1, sent1) \<longrightarrow>
      fwdcache s1 = fwdcache s \<and>
      (sent1 = sent \<or> sent1 = Suc sent) \<and>
      ((sent1 = Suc sent) = (wire s1 = wire s @ [(connAddress op, msg, True)])))
   \<and> (\<not> isSelfRecipient env msg \<and> Forward (Suc n) env s msg = Return (r, s') \<longrightarrow>
        (\<forall>d'. lastSender s' d' = lastSender s d') \<and>
        (fwdcache s' = fwdcache s \<or>
         (r = None \<and> successes (wire s') \<noteq> successes (wire s) \<and>
          (\<exists>dg err e. storeMsg env msg = Return (dg, err) \<and> fwdcache s' = (fwdcache s)(dg \<mapsto> e) \<and>
                 receivedFrom e = lastSender s dg))))
   \<and> (\<not> isSelfRecipient env msg \<and> Forward (Suc n) env s msg = Exit s' \<longrightarrow> fwdcache s' = fwdcache s)"
proof (intro conjI impI)
  assume st: "forwardConn env msg d (op, po, prox) (s, sent) = Return (cont, s1, sent1)"
  note step = forwardConn_step [OF st]
  then have frame: "s1 = s\<lparr>ticks := ticks s1, wire := wire s1\<rparr>" by simp
  show "fwdcache s1 = fwdcache s" by (subst frame) simp
  show "sent1 = sent \<or> sent1 = Suc sent" using step by auto
  show "(sent1 = Suc sent) = (wire s1 = wire s @ [(connAddress op, msg, True)])" using step by auto
next
  assume a: "\<not> isSelfRecipient env msg \<and> Forward (Suc n) env s msg = Return (r, s')"
  then have rel: "forwardRelay env s msg = Return (r, s')" by auto
  then obtain digest err where store: "storeMsg env msg = Return (digest, err)"
    unfolding forwardRelay_def by (cases "storeMsg env msg") (auto simp: bind_run_simps)
  let ?s1 = "snd (checkFwdCache env s None digest)"
  let ?fan = "eachConn (forwardConn env msg digest) (EachConn env (To msg) 256) (?s1, 0)"
  have s1: "?s1 = s \<or> ?s1 = s\<lparr>ticks := Suc (ticks s)\<rparr>"
    by (rule checkFwdCache_snd)
  have wire1: "wire ?s1 = wire s" and cache1: "fwdcache ?s1 = fwdcache s" using s1 by auto
  note cases = forwardRelay_cases [OF store, of s]
  have both: "(\<forall>d'. lastSender s' d' = lastSender s d') \<and>
        (fwdcache s' = fwdcache s \<or>
         (r = None \<and> successes (wire s') \<noteq> successes (wire s) \<and>
          (\<exists>dg err e. storeMsg env msg = Return (dg, err) \<and> fwdcache s' = (fwdcache s)(dg \<mapsto> e) \<and>
                 receivedFrom e = lastSender s dg)))"
  proof (cases "fst (checkFwdCache env s None digest)")
    case True
    with forwardRelay_ReturnD [OF store rel] have "s' = ?s1" by blast
    with cache1 show ?thesis by (simp add: lastSender_def)
  next
    case False
    from forwardRelay_ReturnD [OF store rel] False obtain s2 sent where
      fan: "?fan = Return (s2, sent)" and
      fin: "sent = 0 \<longrightarrow> r = Some (Error ''unable to forward to any peers'') \<and> s' = s2"
           "sent \<noteq> 0 \<longrightarrow> r = None \<and> s' = snd (addFwdCacheExpire env s2 digest)"
      by blast
    from eachConn_forwardConn [OF fan] obtain new where
      frame: "s2 = ?s1\<lparr>ticks := ticks s2, wire := wire s2\<rparr>" and
      new: "wire s2 = wire ?s1 @ new" "sent = 0 + successes new"
      by blast
    have cache2: "fwdcache s2 = fwdcache s"
      using cache1 by (subst frame) simp
    show ?thesis
    proof (cases "sent = 0")
      case True
      with fin(1) have "s' = s2" by simp
      with cache2 show ?thesis by (simp add: lastSender_def)
    next
      case nz: False
      with fin(2) have r: "r = None" and s': "s' = snd (addFwdCacheExpire env s2 digest)" by simp_all
      let ?e = "(case fwdcache s digest of None \<Rightarrow> newCacheEntry | Some e \<Rightarrow> e)
          \<lparr>expiresAt := clock env (ticks s2) + cachettl s2\<rparr>"
      have fc: "fwdcache s' = (fwdcache s)(digest \<mapsto> ?e)"
        using cache2 by (simp add: s' addFwdCacheExpire_snd)
      have rf: "receivedFrom ?e = lastSender s digest"
        by (simp add: lastSender_def newCacheEntry_def split: option.splits)
      have ls: "\<forall>d'. lastSender s' d' = lastSender s d'"
      proof
        fix d'
        show "lastSender s' d' = lastSender s d'"
        proof (cases "d' = digest")
          case True
          have "lastSender s' digest = receivedFrom ?e"
            unfolding lastSender_def fc by simp
          with rf True show ?thesis by simp
        next
          case False
          then show ?thesis unfolding lastSender_def fc by simp
        qed
      qed
      have succ: "successes (wire s') \<noteq> successes (wire s)"
        using nz new wire1 by (simp add: s' addFwdCacheExpire_snd successes_simps)
      from store fc rf have "\<exists>dg err e. storeMsg env msg = Return (dg, err) \<and>
          fwdcache s' = (fwdcache s)(dg \<mapsto> e) \<and> receivedFrom e = lastSender s dg"
        by blast
      with r ls succ show ?thesis by blast
    qed
  qed
  from both show "\<forall>d'. lastSender s' d' = lastSender s d'" by blast
  from both show "fwdcache s' = fwdcache s \<or>
         (r = None \<and> successes (wire s') \<noteq> successes (wire s) \<and>
          (\<exists>dg err e. storeMsg env msg = Return (dg, err) \<and> fwdcache s' = (fwdcache s)(dg \<mapsto> e) \<and>
                 receivedFrom e = lastSender s dg))" by blast
next
  assume a: "\<not> isSelfRecipient env msg \<and> Forward (Suc n) env s msg = Exit s'"
  then have rel: "forwardRelay env s msg = Exit s'" by auto
  have "storeMsg env msg \<noteq> Exit s'"
    by (simp add: storeMsg_def split: sum.splits)
  with rel obtain digest err where store: "storeMsg env msg = Return (digest, err)"
    unfolding forwardRelay_def by (cases "storeMsg env msg") (auto simp: bind_run_simps)
  let ?s1 = "snd (checkFwdCache env s None digest)"
  have s1: "?s1 = s \<or> ?s1 = s\<lparr>ticks := Suc (ticks s)\<rparr>"
    by (rule checkFwdCache_snd)
  have cache1: "fwdcache ?s1 = fwdcache s" using s1 by auto
  from forwardRelay_ExitD [OF store rel]
  have "eachConn (forwardConn env msg digest) (EachConn env (To msg) 256) (?s1, 0) = Exit s'"
    by blast
  from eachConn_forwardConn_Exit [OF this] have frame: "s' = ?s1\<lparr>ticks := ticks s', wire := wire s'\<rparr>"
    by blast
  show "fwdcache s' = fwdcache s"
    using cache1 by (subst frame) simp
qed

text \<open>
  C5 on a single successful send and on scenario S3.
\<close>

theorem C5_witness:
  "fwdcache ((exNode 10)\<lparr>wire := [(Some [2], exMsg, True)]\<rparr>) = fwdcache (exNode 10)
   \<and> lastSender exForwarded exDigest = lastSender (exReceived 10) exDigest
   \<and> fwdcache ((exNode 10)\<lparr>wire := [(Some [2], exMsg, True)]\<rparr>) = fwdcache (exNode 10)"
proof -
  have st: "forwardConn (exNet [exConn 2 True]) exMsg exDigest (fst (exConn 2 True), 0, True) (exNode 10, 0)
     = Return (True, (exNode 10)\<lparr>wire := [(Some [2], exMsg, True)]\<rparr>, 1)"
    by (simp add: ex_defs op_defs)
  have run: "\<not> isSelfRecipient (exSlowNet [exConn 1 True, exConn 2 True]) exMsg \<and>
     Forward (Suc 0) (exSlowNet [exConn 1 True, exConn 2 True]) (exReceived 10) exMsg = Return (None, exForwarded)"
    by (simp add: ex_defs op_defs)
  have ended: "\<not> isSelfRecipient (exNet [exConn 2 True, exRawConn 3 True]) exMsg \<and>
     Forward (Suc 0) (exNet [exConn 2 True, exRawConn 3 True]) (exNode 10) exMsg
       = Exit ((exNode 10)\<lparr>wire := [(Some [2], exMsg, True)]\<rparr>)"
    by (simp add: ex_defs op_defs)
  from C5_fanout_leaves_cache [where env = "exNet [exConn 2 True]" and msg = exMsg and d = exDigest
      and op = "fst (exConn 2 True)" and po = 0 and prox = True and s = "exNode 10" and sent = 0
      and cont = True and ?s1.0 = "(exNode 10)\<lparr>wire := [(Some [2], exMsg, True)]\<rparr>" and ?sent1.0 = 1] st
  have a: "fwdcache ((exNode 10)\<lparr>wire := [(Some [2], exMsg, True)]\<rparr>) = fwdcache (exNode 10)"
    by blast
  from C5_fanout_leaves_cache [where env = "exSlowNet [exConn 1 True, exConn 2 True]" and msg = exMsg
      and s = "exReceived 10" and n = 0 and r = None and s' = exForwarded] run
  have b: "lastSender exForwarded exDigest = lastSender (exReceived 10) exDigest"
    by blast
  from C5_fanout_leaves_cache [where env = "exNet [exConn 2 True, exRawConn 3 True]" and msg = exMsg
      and s = "exNode 10" and n = 0 and s' = "(exNode 10)\<lparr>wire := [(Some [2], exMsg, True)]\<rparr>"] ended
  have c: "fwdcache ((exNode 10)\<lparr>wire := [(Some [2], exMsg, True)]\<rparr>) = fwdcache (exNode 10)"
    by blast
  from a b c show ?thesis by simp
qed

text \<open>
  C5 as stated fails: after the successful send to peer 2 the cache holds no last sender for
  the digest, during the fan-out and after it; and were the overlay to yield peer 2 twice,
  the same fan-out would send to it twice.
\<close>

theorem C5_sender_not_recorded_counterexample:
  "Forward (Suc 0) (exNet [exConn 2 True]) (exNode 10) exMsg
     = Return (None, (exNode 10)\<lparr>fwdcache := [exDigest \<mapsto> \<lparr>expiresAt = 1010, receivedFrom = None\<rparr>],
         ticks := 1, wire := [(Some [2], exMsg, True)]\<rparr>)
   \<and> lastSender ((exNode 10)\<lparr>fwdcache := [exDigest \<mapsto> \<lparr>expiresAt = 1010, receivedFrom = None\<rparr>],
         ticks := 1, wire := [(Some [2], exMsg, True)]\<rparr>) exDigest = None
   \<and> forwardConn (exNet [exConn 2 True]) exMsg exDigest (exConn 2 True) (exNode 10, 0)
     = Return (True, (exNode 10)\<lparr>wire := [(Some [2], exMsg, True)]\<rparr>, 1)
   \<and> eachConn (forwardConn (exNet [exConn 2 True, exConn 2 True]) exMsg exDigest)
        [exConn 2 True, exConn 2 True] (exNode 10, 0)
     = Return ((exNode 10)\<lparr>wire := [(Some [2], exMsg, True), (Some [2], exMsg, True)]\<rparr>, 2)"
  by (simp add: ex_defs op_defs lastSender_def)


text \<open>
  C6. After a successful send to a connection the callback stops the iteration exactly when
  the connection's address is byte-equal to the destination or the connection is not in
  the proximity bin; otherwise the iteration goes on with the remaining connections.
\<close>

theorem C6_stop_condition:
  assumes "forwardConn env msg d (op, po, prox) (s, sent) = Return (cont, s', sent')"
    and "wire s' = wire s @ [(connAddress op, msg, True)]"
  shows "cont = (\<not> (bytes_Equal (To msg) (connAddress op) \<or> \<not> prox))
    \<and> eachConn (forwardConn env msg d) ((op, po, prox) # rest) (s, sent) =
        (if bytes_Equal (To msg) (connAddress op) \<or> \<not> prox then Return (s', sent')
         else eachConn (forwardConn env msg d) rest (s', sent'))"
proof -
  from forwardConn_step [OF assms(1)] assms(2)
  have "cont = (\<not> bytes_Equal (To msg) (connAddress op) \<and> prox)" by auto
  then show ?thesis using assms(1) by (auto simp: bind_run_simps)
qed

text \<open>
  C6 on scenario S4: three peers in the proximity bin all get the message; a second peer
  outside the bin ends the iteration.
\<close>

theorem C6_witness:
  "eachConn (forwardConn (exNet [exConn 1 True, exConn 2 True, exConn 3 True]) exMsg exDigest)
      [exConn 1 True, exConn 2 True, exConn 3 True] (exNode 10, 0)
     = Return ((exNode 10)\<lparr>wire := [(Some [1], exMsg, True), (Some [2], exMsg, True), (Some [3], exMsg, True)]\<rparr>, 3)
   \<and> eachConn (forwardConn (exNet [exConn 1 True, exConn 2 False, exConn 3 True]) exMsg exDigest)
      [exConn 1 True, exConn 2 False, exConn 3 True] (exNode 10, 0)
     = Return ((exNode 10)\<lparr>wire := [(Some [1], exMsg, True), (Some [2], exMsg, True)]\<rparr>, 2)"
proof -
  let ?A = "exNet [exConn 1 True, exConn 2 True, exConn 3 True]"
  let ?B = "exNet [exConn 1 True, exConn 2 False, exConn 3 True]"
  let ?s1 = "(exNode 10)\<lparr>wire := [(Some [1], exMsg, True)]\<rparr>"
  let ?s2 = "(exNode 10)\<lparr>wire := [(Some [1], exMsg, True), (Some [2], exMsg, True)]\<rparr>"
  have a1: "forwardConn ?A exMsg exDigest (fst (exConn 1 True), 0, True) (exNode 10, 0) = Return (True, ?s1, 1)"
    by (simp add: ex_defs op_defs)
  have w1: "wire ?s1 = wire (exNode 10) @ [(connAddress (fst (exConn 1 True)), exMsg, True)]"
    by (simp add: ex_defs)
  have b1: "forwardConn ?B exMsg exDigest (fst (exConn 1 True), 0, True) (exNode 10, 0) = Return (True, ?s1, 1)"
    by (simp add: ex_defs op_defs)
  have b2: "forwardConn ?B exMsg exDigest (fst (exConn 2 False), 0, False) (?s1, 1) = Return (False, ?s2, 2)"
    by (simp add: ex_defs op_defs)
  have w2: "wire ?s2 = wire ?s1 @ [(connAddress (fst (exConn 2 False)), exMsg, True)]"
    by (simp add: ex_defs)
  have restA: "eachConn (forwardConn ?A exMsg exDigest) [exConn 2 True, exConn 3 True] (?s1, 1)
     = Return ((exNode 10)\<lparr>wire := [(Some [1], exMsg, True), (Some [2], exMsg, True), (Some [3], exMsg, True)]\<rparr>, 3)"
    by (simp add: ex_defs op_defs bind_run_simps)
  have A: "eachConn (forwardConn ?A exMsg exDigest) [exConn 1 True, exConn 2 True, exConn 3 True] (exNode 10, 0)
     = Return ((exNode 10)\<lparr>wire := [(Some [1], exMsg, True), (Some [2], exMsg, True), (Some [3], exMsg, True)]\<rparr>, 3)"
    using C6_stop_condition [OF a1 w1, of "[exConn 2 True, exConn 3 True]"] restA
    by (simp add: exConn_def bytes_Equal_def sliceBytes_def exMsg_def)
  have B1: "eachConn (forwardConn ?B exMsg exDigest) [exConn 1 True, exConn 2 False, exConn 3 True] (exNode 10, 0)
     = eachConn (forwardConn ?B exMsg exDigest) [exConn 2 False, exConn 3 True] (?s1, 1)"
    using C6_stop_condition [OF b1 w1, of "[exConn 2 False, exConn 3 True]"]
    by (simp add: exConn_def bytes_Equal_def sliceBytes_def exMsg_def)
  have B2: "eachConn (forwardConn ?B exMsg exDigest) [exConn 2 False, exConn 3 True] (?s1, 1) = Return (?s2, 2)"
    using C6_stop_condition [OF b2 w2, of "[exConn 3 True]"]
    by (simp add: exConn_def bytes_Equal_def sliceBytes_def exMsg_def)
  from A B1 B2 show ?thesis by simp
qed

section \<open>Process: the handshake\<close>

lemma peerOf_putPeer:
  "peerOf (putPeer s a t p) a' t' = (if a' = a \<and> t' = t then Some p else peerOf s a' t')"
  by (auto simp: peerOf_def putPeer_def split: option.splits)

lemma putPeer_fields:
  "reverseKeyPool (putPeer s a t p) = reverseKeyPool s" "recvsymkeys (putPeer s a t p) = recvsymkeys s"
  "whisper (putPeer s a t p) = whisper s" "ticks (putPeer s a t p) = ticks s"
  "wire (putPeer s a t p) = wire s" "fwdcache (putPeer s a t p) = fwdcache s"
  "handlers (putPeer s a t p) = handlers s" "delivered (putPeer s a t p) = delivered s"
  "fwdPool (putPeer s a t p) = fwdPool s" "cachettl (putPeer s a t p) = cachettl s"
  by (simp_all add: putPeer_def)

lemma preparePeerTopic_snd:
  "snd (preparePeerTopic s a t) = putPeer s a t (peerOrNew s a t)"
  by (auto simp: preparePeerTopic_def putPeer_def peerOrNew_def peerOf_def Let_def
      split: option.splits intro!: arg_cong [where f = "\<lambda>x. peerPool_update x s"] ext)

lemma setPeer_putPeer:
  "setPeer (putPeer s a t p) a t f = Return (putPeer s a t (f p))"
  by (simp add: setPeer_def putPeer_def)

lemma putPeer_update_commute:
  "putPeer (s\<lparr>whisper := w1\<rparr>) a t p = (putPeer s a t p)\<lparr>whisper := w1\<rparr>"
  "putPeer (s\<lparr>ticks := k\<rparr>) a t p = (putPeer s a t p)\<lparr>ticks := k\<rparr>"
  "putPeer (s\<lparr>recvsymkeys := ks\<rparr>) a t p = (putPeer s a t p)\<lparr>recvsymkeys := ks\<rparr>"
  by (simp_all add: putPeer_def)

lemma AddPublicKey_eq:
  "AddPublicKey s a t pk = Return (putPeer s a t ((peerOrNew s a t)\<lparr>pubkey := pk\<rparr>))"
  by (simp add: AddPublicKey_def preparePeerTopic_snd setPeer_putPeer)

lemma SetOutgoingSymmetricKey_ok:
  assumes "AddSymKeyDirect env (whisper s) key = (Inr keyid, w1)"
  shows "SetOutgoingSymmetricKey env s a t key =
     Return (None, putPeer (s\<lparr>whisper := w1, ticks := Suc (ticks s)\<rparr>) a t
       ((peerOrNew s a t)\<lparr>sendsymkey := keyid, symkeyexpires := clock env (ticks s) + symkeyValidity\<rparr>))"
proof -
  have p: "peerOrNew (s\<lparr>whisper := w1\<rparr>) a t = peerOrNew s a t"
    by (simp add: peerOrNew_def peerOf_def)
  show ?thesis
    using assms
    by (simp add: SetOutgoingSymmetricKey_def preparePeerTopic_snd timeNow_def putPeer_fields p
        putPeer_update_commute [symmetric] setPeer_putPeer bind_run_simps)
qed

lemma SetOutgoingSymmetricKey_err:
  assumes "AddSymKeyDirect env (whisper s) key = (Inl err, w1)"
  shows "SetOutgoingSymmetricKey env s a t key = Return (Some err, s\<lparr>whisper := w1\<rparr>)"
  using assms by (simp add: SetOutgoingSymmetricKey_def)

lemma SetIncomingSymmetricKey_err:
  assumes "AddSymKeyDirect env (whisper s) key = (Inl err, w1)"
  shows "SetIncomingSymmetricKey env s a t key = Return (Some err, s\<lparr>whisper := w1\<rparr>)"
  using assms by (simp add: SetIncomingSymmetricKey_def)

lemma SetIncomingSymmetricKey_ok:
  assumes "AddSymKeyDirect env (whisper s) key = (Inr keyid, w1)"
  shows "SetIncomingSymmetricKey env s a t key =
     Return (None, (putPeer (s\<lparr>whisper := w1, recvsymkeys := recvsymkeys s @ [keyid], ticks := Suc (ticks s)\<rparr>) a t
       ((peerOrNew s a t)\<lparr>recvsymkey := keyid, symkeyexpires := clock env (ticks s) + symkeyValidity\<rparr>))
         \<lparr>reverseKeyPool := (reverseKeyPool s)(keyid \<mapsto>
             (case reverseKeyPool s keyid of None \<Rightarrow> Map.empty | Some r0 \<Rightarrow> r0)(t \<mapsto> a))\<rparr>)"
proof -
  have p: "peerOrNew (s\<lparr>whisper := w1\<rparr>) a t = peerOrNew s a t"
    by (simp add: peerOrNew_def peerOf_def)
  show ?thesis
    using assms
    by (simp add: SetIncomingSymmetricKey_def preparePeerTopic_snd timeNow_def putPeer_fields p
        putPeer_update_commute [symmetric] setPeer_putPeer bind_run_simps)
qed

lemma ProcessAsymWith_outcomes:
  "ProcessAsymWith fwd env s m = Return (None, s)
   \<or> ProcessAsymWith fwd env s m = Return (Some (Error ''invalid signature''), s)
   \<or> ProcessAsymWith fwd env s m = Return (Some (Error ''invalid handshake msg''), s)"
  by (simp add: ProcessAsymWith_def asPssKeyMsg_def Let_def split: sum.splits)

text \<open>
  C2 fails in the code. The payload of an opened envelope is a byte slice, and the type
  assertion to \<open>*pssKeyMsg\<close> fails on every byte slice: the asymmetric branch of
  \<open>Process\<close> returns nil, \<open>invalid signature\<close> or \<open>invalid handshake msg\<close> and leaves the
  node as it was, so it installs no key and sends no reply. On a validly signed handshake
  from node 1 that no symmetric key opens, \<open>Process\<close> returns \<open>invalid handshake msg\<close>;
  the node has no peer state for address 1 and has sent nothing.
\<close>

theorem C2_handshake_not_recognised:
  "(ProcessAsymWith fwd env s m = Return (None, s)
    \<or> ProcessAsymWith fwd env s m = Return (Some (Error ''invalid signature''), s)
    \<or> ProcessAsymWith fwd env s m = Return (Some (Error ''invalid handshake msg''), s))
   \<and> trySymKeys (exNet [exConn 1 True]) exPss (Payload exHandshake) (recvsymkeys exPss) = None
   \<and> OpenAsymmetric (exNet [exConn 1 True]) (Payload exHandshake)
       = Inr \<lparr>MsgPayload = [1, 4, 4], SigValid = True\<rparr>
   \<and> Process (Suc 0) (exNet [exConn 1 True]) exPss exHandshake
       = Return (Some (Error ''invalid handshake msg''), exPss)
   \<and> peerOf exPss (exAddr 1) 1 = None
   \<and> wire exPss = []"
proof -
  have "trySymKeys (exNet [exConn 1 True]) exPss (Payload exHandshake) (recvsymkeys exPss) = None"
    by (simp add: exPss_def NewPss_def)
  moreover have "OpenAsymmetric (exNet [exConn 1 True]) (Payload exHandshake)
       = Inr \<lparr>MsgPayload = [1, 4, 4], SigValid = True\<rparr>"
    by (simp add: ex_defs exw_defs)
  moreover have "Process (Suc 0) (exNet [exConn 1 True]) exPss exHandshake
       = Return (Some (Error ''invalid handshake msg''), exPss)"
    by (simp add: key_defs exw_defs ex_defs exPss_def NewPss_def)
  moreover have "peerOf exPss (exAddr 1) 1 = None" "wire exPss = []"
    by (simp_all add: exPss_def NewPss_def peerOf_def)
  ultimately show ?thesis
    using ProcessAsymWith_outcomes [of fwd env s m] by blast
qed

section \<open>The reverse index\<close>

text \<open>
  The invariant holds of a new node.
\<close>

lemma reverseIndexed_NewPss: "reverseIndexed (NewPss ttl w0)"
  by (simp add: reverseIndexed_def NewPss_def peerOf_def)

lemma reverseIndexed_cong:
  assumes "peerPool s' = peerPool s" "reverseKeyPool s' = reverseKeyPool s" "recvsymkeys s' = recvsymkeys s"
  shows "reverseIndexed s' = reverseIndexed s"
  by (simp add: reverseIndexed_def peerOf_def assms)

lemma reverseIndexed_putPeer:
  assumes "reverseIndexed s"
    and "recvsymkey p \<noteq> [] \<longrightarrow> (\<exists>r b. reverseKeyPool s (recvsymkey p) = Some r \<and> r t = Some b)"
  shows "reverseIndexed (putPeer s a t p)"
  using assms unfolding reverseIndexed_def peerOf_putPeer putPeer_fields
  by (auto split: if_splits)

lemma reverseIndexed_peerOrNew:
  assumes "reverseIndexed s" and "recvsymkey (peerOrNew s a t) \<noteq> []"
  shows "\<exists>r b. reverseKeyPool s (recvsymkey (peerOrNew s a t)) = Some r \<and> r t = Some b"
  using assms by (auto simp: reverseIndexed_def peerOrNew_def newPeer_def split: option.splits)

lemma reverseIndexed_preparePeerTopic:
  assumes "reverseIndexed s"
  shows "reverseIndexed (snd (preparePeerTopic s a t))"
  unfolding preparePeerTopic_snd
  using assms reverseIndexed_peerOrNew [OF assms] by (intro reverseIndexed_putPeer) auto

lemma reverseIndexed_AddPublicKey:
  assumes "reverseIndexed s" and "AddPublicKey s a t pk = Return s'"
  shows "reverseIndexed s' \<and> reverseKeyPool s' = reverseKeyPool s"
proof -
  have s': "s' = putPeer s a t ((peerOrNew s a t)\<lparr>pubkey := pk\<rparr>)"
    using assms(2) by (simp add: AddPublicKey_eq)
  have "reverseIndexed (putPeer s a t ((peerOrNew s a t)\<lparr>pubkey := pk\<rparr>))"
    using assms(1) reverseIndexed_peerOrNew [OF assms(1)] by (intro reverseIndexed_putPeer) auto
  then show ?thesis by (simp add: s' putPeer_fields)
qed

lemma reverseIndexed_whisper [simp]: "reverseIndexed (s\<lparr>whisper := w1\<rparr>) = reverseIndexed s"
  by (rule reverseIndexed_cong) simp_all

lemma reverseIndexed_ticks [simp]: "reverseIndexed (s\<lparr>ticks := k\<rparr>) = reverseIndexed s"
  by (rule reverseIndexed_cong) simp_all

lemma reverseIndexed_wire [simp]: "reverseIndexed (s\<lparr>wire := x\<rparr>) = reverseIndexed s"
  by (rule reverseIndexed_cong) simp_all

lemma reverseIndexed_delivered [simp]: "reverseIndexed (s\<lparr>delivered := x\<rparr>) = reverseIndexed s"
  by (rule reverseIndexed_cong) simp_all

lemma reverseIndexed_fwdcache [simp]: "reverseIndexed (s\<lparr>fwdcache := x\<rparr>) = reverseIndexed s"
  by (rule reverseIndexed_cong) simp_all

lemma reverseIndexed_SetOutgoing:
  assumes "reverseIndexed s" and "SetOutgoingSymmetricKey env s a t key = Return (r, s')"
  shows "reverseIndexed s' \<and> reverseKeyPool s' = reverseKeyPool s"
proof (cases "AddSymKeyDirect env (whisper s) key")
  case (Pair res w1)
  show ?thesis
  proof (cases res)
    case (Inl err)
    with Pair assms show ?thesis by (auto simp: SetOutgoingSymmetricKey_err)
  next
    case (Inr keyid)
    let ?s0 = "s\<lparr>whisper := w1, ticks := Suc (ticks s)\<rparr>"
    let ?p = "(peerOrNew s a t)\<lparr>sendsymkey := keyid, symkeyexpires := clock env (ticks s) + symkeyValidity\<rparr>"
    have s': "s' = putPeer ?s0 a t ?p"
      using assms(2) Pair Inr by (simp add: SetOutgoingSymmetricKey_ok)
    have inv0: "reverseIndexed ?s0" using assms(1) by simp
    have "reverseIndexed (putPeer ?s0 a t ?p)"
      using inv0 reverseIndexed_peerOrNew [OF assms(1), of a t] by (intro reverseIndexed_putPeer) auto
    then show ?thesis by (simp add: s' putPeer_fields)
  qed
qed

lemma reverseIndexed_SetIncoming:
  assumes "reverseIndexed s" and "SetIncomingSymmetricKey env s a t key = Return (r, s')"
  shows "reverseIndexed s' \<and>
    (r = None \<longrightarrow> (\<exists>p x. peerOf s' a t = Some p \<and> reverseKeyPool s' (recvsymkey p) = Some x \<and> x t = Some a))"
proof (cases "AddSymKeyDirect env (whisper s) key")
  case (Pair res w1)
  show ?thesis
  proof (cases res)
    case (Inl err)
    with Pair assms show ?thesis by (auto simp: SetIncomingSymmetricKey_err)
  next
    case (Inr keyid)
    let ?p = "(peerOrNew s a t)\<lparr>recvsymkey := keyid, symkeyexpires := clock env (ticks s) + symkeyValidity\<rparr>"
    let ?rev = "(reverseKeyPool s)(keyid \<mapsto>
             (case reverseKeyPool s keyid of None \<Rightarrow> Map.empty | Some r0 \<Rightarrow> r0)(t \<mapsto> a))"
    have s': "s' = (putPeer (s\<lparr>whisper := w1, recvsymkeys := recvsymkeys s @ [keyid], ticks := Suc (ticks s)\<rparr>) a t ?p)
         \<lparr>reverseKeyPool := ?rev\<rparr>"
      using assms(2) Pair Inr by (simp add: SetIncomingSymmetricKey_ok)
    have grow: "\<exists>r' b'. ?rev k = Some r' \<and> r' t' = Some b'"
      if "reverseKeyPool s k = Some r0" "r0 t' = Some b" for k r0 t' b
      using that by auto
    have peers: "\<exists>r' b'. ?rev (recvsymkey q) = Some r' \<and> r' t' = Some b'"
      if "peerOf s' a' t' = Some q" "recvsymkey q \<noteq> []" for a' t' q
    proof (cases "a' = a \<and> t' = t")
      case True
      with that have "q = ?p" by (simp add: s' peerOf_def putPeer_def)
      with True show ?thesis by simp
    next
      case False
      with that have "peerOf s a' t' = Some q"
        by (auto simp: s' peerOf_def putPeer_def split: option.splits if_splits)
      with assms(1) that(2) obtain r0 b where "reverseKeyPool s (recvsymkey q) = Some r0" "r0 t' = Some b"
        unfolding reverseIndexed_def by blast
      then show ?thesis by (rule grow)
    qed
    have keys: "\<exists>r' t' b'. ?rev k = Some r' \<and> r' t' = Some b'" if "k \<in> set (recvsymkeys s @ [keyid])" for k
    proof (cases "k = keyid")
      case True
      then show ?thesis by auto
    next
      case False
      with that assms(1) obtain r0 t' b where "reverseKeyPool s k = Some r0" "r0 t' = Some b"
        unfolding reverseIndexed_def by auto
      then show ?thesis using grow by blast
    qed
    have inv: "reverseIndexed s'"
      unfolding reverseIndexed_def
    proof (intro conjI allI impI ballI)
      fix a' t' q
      assume "peerOf s' a' t' = Some q \<and> recvsymkey q \<noteq> []"
      then show "\<exists>r b. reverseKeyPool s' (recvsymkey q) = Some r \<and> r t' = Some b"
        using peers [of a' t' q] by (simp add: s')
    next
      fix k
      assume "k \<in> set (recvsymkeys s')"
      then have "k \<in> set (recvsymkeys s @ [keyid])" by (simp add: s' putPeer_fields)
      then show "\<exists>r t b. reverseKeyPool s' k = Some r \<and> r t = Some b"
        using keys [of k] by (simp add: s')
    qed
    have entry: "\<exists>p x. peerOf s' a t = Some p \<and> reverseKeyPool s' (recvsymkey p) = Some x \<and> x t = Some a"
      by (simp add: s' peerOf_def putPeer_def)
    from inv entry show ?thesis by simp
  qed
qed

lemma reverseIndexed_removePeerTopic:
  assumes "reverseIndexed s"
  shows "reverseIndexed (removePeerTopic s prw t)"
proof -
  have sub: "peerOf (removePeerTopic s prw t) a' t' = Some q \<Longrightarrow> peerOf s a' t' = Some q" for a' t' q
    by (auto simp: removePeerTopic_def peerOf_def split: option.splits if_splits)
  have same: "reverseKeyPool (removePeerTopic s prw t) = reverseKeyPool s"
    "recvsymkeys (removePeerTopic s prw t) = recvsymkeys s"
    by (auto simp: removePeerTopic_def split: option.splits)
  show ?thesis
    using assms unfolding reverseIndexed_def same by (blast dest: sub)
qed

lemma bind_run_ReturnD:
  "bind_run m f = Return y \<Longrightarrow> \<exists>x. m = Return x \<and> f x = Return y"
  by (cases m) (simp_all add: bind_run_def)

lemma reverseIndexed_isSecured:
  assumes "isSecured env s a t = Return (b, s1)"
  shows "reverseIndexed s1 = reverseIndexed s"
  using isSecured_frame [OF assms] by auto

lemma reverseIndexed_runHandlers:
  "reverseIndexed (snd (runHandlers env hs payload sender s)) = reverseIndexed s"
  by (induction hs arbitrary: s) (auto simp: Let_def split: option.splits)

lemma runHandlers_delivered:
  "\<exists>new. delivered (snd (runHandlers env hs payload sender s)) = delivered s @ new
     \<and> (\<forall>x \<in> set new. snd x = (payload, sender))"
proof (induction hs arbitrary: s)
  case Nil
  then show ?case by simp
next
  case (Cons h hs)
  let ?s1 = "s\<lparr>delivered := delivered s @ [(h, payload, sender)]\<rparr>"
  show ?case
  proof (cases "callHandler env h payload sender")
    case None
    from Cons.IH [of ?s1] obtain new where
      "delivered (snd (runHandlers env hs payload sender ?s1)) = delivered ?s1 @ new"
      "\<forall>x \<in> set new. snd x = (payload, sender)"
      by blast
    with None show ?thesis
      by (intro exI [of _ "(h, payload, sender) # new"]) (simp add: Let_def)
  next
    case (Some err)
    then show ?thesis
      by (intro exI [of _ "[(h, payload, sender)]"]) (simp add: Let_def)
  qed
qed

lemma reverseIndexed_sendWith:
  assumes fwd_ok: "\<forall>s m r s'. reverseIndexed s \<longrightarrow> fwd s m = Return (r, s') \<longrightarrow> reverseIndexed s'"
    and "reverseIndexed s" and "sendWith fwd env s to t msg wparams = Return (r, s')"
  shows "reverseIndexed s'"
  using assms(2,3) fwd_ok [rule_format]
  by (auto simp: sendWith_def split: sum.splits)

lemma reverseIndexed_SendSymWith:
  assumes fwd_ok: "\<forall>s m r s'. reverseIndexed s \<longrightarrow> fwd s m = Return (r, s') \<longrightarrow> reverseIndexed s'"
    and inv: "reverseIndexed s" and ret: "SendSymWith fwd env s to t msg = Return (r, s')"
  shows "reverseIndexed s'"
proof -
  from ret obtain secured s1 where
    sec: "isSecured env s (potAddress to) t = Return (secured, s1)" and
    rest: "(if \<not> secured then Return (Some (Error ''missing complete handshake''), s1)
           else
             (case peerOf s1 (potAddress to) t of
                None \<Rightarrow> Panic
              | Some psp \<Rightarrow>
                  (case GetSymKey env (whisper s1) (sendsymkey psp) of
                     Inl err \<Rightarrow> Return (Some (Error ''missing valid symkey''), s1)
                   | Inr symkey \<Rightarrow>
                       sendWith fwd env s1 to t msg
                         \<lparr>KeySym = symkey, DstKey = None, ParamTopic = t, ParamPayload = msg\<rparr>))) = Return (r, s')"
    unfolding SendSymWith_def Let_def by (auto dest!: bind_run_ReturnD)
  have inv1: "reverseIndexed s1"
    using reverseIndexed_isSecured [OF sec] inv by simp
  from rest inv1 show ?thesis
    by (auto split: if_splits option.splits sum.splits
        intro: reverseIndexed_sendWith [OF fwd_ok])
qed

lemma reverseIndexed_SendAsymWith:
  assumes fwd_ok: "\<forall>s m r s'. reverseIndexed s \<longrightarrow> fwd s m = Return (r, s') \<longrightarrow> reverseIndexed s'"
    and inv: "reverseIndexed s" and ret: "SendAsymWith fwd env s to t msg = Return (r, s')"
  shows "reverseIndexed s'"
  using ret inv
  by (auto simp: SendAsymWith_def Let_def split: option.splits
      intro: reverseIndexed_sendWith [OF fwd_ok])

lemma reverseIndexed_ProcessAsymWith:
  assumes inv: "reverseIndexed s" and ret: "ProcessAsymWith fwd env s m = Return (r, s')"
  shows "reverseIndexed s'"
  using ProcessAsymWith_outcomes [of fwd env s m] ret inv by auto

lemma reverseIndexed_ProcessWith:
  assumes fwd_ok: "\<forall>s m r s'. reverseIndexed s \<longrightarrow> fwd s m = Return (r, s') \<longrightarrow> reverseIndexed s'"
    and inv: "reverseIndexed s" and ret: "ProcessWith fwd env s m = Return (r, s')" (is "_ = ?R")
  shows "reverseIndexed s'"
proof (cases "trySymKeys env s (Payload m) (recvsymkeys s)")
  case None
  with ret have "ProcessAsymWith fwd env s m = Return (r, s')"
    by (simp add: ProcessWith_def)
  then show ?thesis by (rule reverseIndexed_ProcessAsymWith [OF inv])
next
  case (Some x)
  obtain recvmsg sender where x: "x = (recvmsg, sender)" by (cases x)
  from ret Some x have "bind_run (isSecured env s sender (envTopic env (Payload m)))
      (\<lambda>(secured, s1).
         if \<not> secured then Return (None, s1)
         else
           (let hs = getHandlers s1 (envTopic env (Payload m)) in
            if length hs = 0 then Return (Some (Error ''No registered handler for topic''), s1)
            else Return (runHandlers env hs (MsgPayload recvmsg) sender s1))) = ?R"
    by (simp add: ProcessWith_def Let_def)
  from bind_run_ReturnD [OF this] obtain y where
    y1: "isSecured env s sender (envTopic env (Payload m)) = Return y" and
    y2: "(case y of (secured, s1) \<Rightarrow>
           if \<not> secured then Return (None, s1)
           else
             (let hs = getHandlers s1 (envTopic env (Payload m)) in
              if length hs = 0 then Return (Some (Error ''No registered handler for topic''), s1)
              else Return (runHandlers env hs (MsgPayload recvmsg) sender s1))) = ?R"
    by blast
  obtain secured s1 where ys: "y = (secured, s1)" by (cases y)
  from y1 have sec: "isSecured env s sender (envTopic env (Payload m)) = Return (secured, s1)"
    by (simp only: ys)
  from y2 have rest: "(if \<not> secured then Return (None, s1)
               else
                 (let hs = getHandlers s1 (envTopic env (Payload m)) in
                  if length hs = 0 then Return (Some (Error ''No registered handler for topic''), s1)
                  else Return (runHandlers env hs (MsgPayload recvmsg) sender s1))) = ?R"
    by (simp only: ys prod.case)
  have inv1: "reverseIndexed s1"
    using reverseIndexed_isSecured [OF sec] inv by simp
  from rest have "s' = s1 \<or> s' = snd (runHandlers env (getHandlers s1 (envTopic env (Payload m))) (MsgPayload recvmsg) sender s1)"
    by (auto simp: Let_def split: if_splits)
  with inv1 show ?thesis
    by (auto simp: reverseIndexed_runHandlers)
qed

lemma reverseIndexed_forwardRelay:
  assumes inv: "reverseIndexed s" and ret: "forwardRelay env s msg = Return (r, s')"
  shows "reverseIndexed s'"
proof -
  from ret obtain digest err where st: "storeMsg env msg = Return (digest, err)"
    unfolding forwardRelay_def by (auto dest!: bind_run_ReturnD)
  let ?s1 = "snd (checkFwdCache env s None digest)"
  have s1: "?s1 = s \<or> ?s1 = s\<lparr>ticks := Suc (ticks s)\<rparr>"
    by (rule checkFwdCache_snd)
  then have inv1: "reverseIndexed ?s1" using inv by auto
  from forwardRelay_ReturnD [OF st ret]
  have cases: "s' = ?s1 \<or>
     (\<exists>s2 sent. eachConn (forwardConn env msg digest) (EachConn env (To msg) 256) (?s1, 0) = Return (s2, sent) \<and>
            (s' = s2 \<or> s' = snd (addFwdCacheExpire env s2 digest)))"
    by blast
  then show ?thesis
  proof
    assume "s' = ?s1"
    with inv1 show ?thesis by simp
  next
    assume "\<exists>s2 sent. eachConn (forwardConn env msg digest) (EachConn env (To msg) 256) (?s1, 0) = Return (s2, sent) \<and>
            (s' = s2 \<or> s' = snd (addFwdCacheExpire env s2 digest))"
    then obtain s2 sent where
      fan: "eachConn (forwardConn env msg digest) (EachConn env (To msg) 256) (?s1, 0) = Return (s2, sent)" and
      fin: "s' = s2 \<or> s' = snd (addFwdCacheExpire env s2 digest)"
      by blast
    from eachConn_forwardConn [OF fan] have frame: "s2 = ?s1\<lparr>ticks := ticks s2, wire := wire s2\<rparr>"
      by blast
    have inv2: "reverseIndexed s2"
      by (subst frame) (simp add: inv1)
    from fin inv2 show ?thesis
      by (auto simp: addFwdCacheExpire_snd)
  qed
qed

lemma reverseIndexed_Forward:
  "reverseIndexed s \<Longrightarrow> Forward n env s m = Return (r, s') \<Longrightarrow> reverseIndexed s'"
proof (induction n arbitrary: s m r s')
  case 0
  then show ?case by simp
next
  case (Suc n)
  show ?case
  proof (cases "isSelfRecipient env m")
    case True
    with Suc.prems(2) have "ProcessWith (Forward n env) env s m = Return (r, s')" by simp
    moreover have "\<forall>s m r s'. reverseIndexed s \<longrightarrow> Forward n env s m = Return (r, s') \<longrightarrow> reverseIndexed s'"
      using Suc.IH by blast
    ultimately show ?thesis
      using reverseIndexed_ProcessWith [of "Forward n env" s env m r s'] Suc.prems(1) by blast
  next
    case False
    with Suc.prems(2) have "forwardRelay env s m = Return (r, s')" by simp
    then show ?thesis by (rule reverseIndexed_forwardRelay [OF Suc.prems(1)])
  qed
qed

lemma reverseIndexed_AddToCache:
  assumes "reverseIndexed s" and "AddToCache env s c m = Return (r, s')"
  shows "reverseIndexed s'"
  using assms
  by (auto simp: AddToCache_def addFwdCacheSender_def Let_def dest!: bind_run_ReturnD split: option.splits)

lemma trySymKeys_Some:
  assumes "trySymKeys env s e ids = Some (recvmsg, sender)"
  shows "\<exists>K key. K \<in> set ids \<and> GetSymKey env (whisper s) K = Inr key \<and>
           OpenSymmetric env e key = Inr recvmsg \<and> sender = reverseOf s K (envTopic env e)"
  using assms
  by (induction ids) (auto split: sum.splits)

lemma reverseOf_entry:
  assumes "reverseKeyPool s K = Some x" "x t = Some b"
  shows "reverseOf s K t = b"
  using assms by (simp add: reverseOf_def)

lemma ProcessWith_delivers_sender:
  assumes opened: "trySymKeys env s (Payload m) (recvsymkeys s) = Some (recvmsg, sender)"
    and ret: "ProcessWith fwd env s m = Return (r, s')" (is "_ = ?R")
  shows "\<exists>new. delivered s' = delivered s @ new \<and> (\<forall>x \<in> set new. snd x = (MsgPayload recvmsg, sender))"
proof -
  from ret opened have "bind_run (isSecured env s sender (envTopic env (Payload m)))
      (\<lambda>(secured, s1).
         if \<not> secured then Return (None, s1)
         else
           (let hs = getHandlers s1 (envTopic env (Payload m)) in
            if length hs = 0 then Return (Some (Error ''No registered handler for topic''), s1)
            else Return (runHandlers env hs (MsgPayload recvmsg) sender s1))) = ?R"
    by (simp add: ProcessWith_def Let_def)
  from bind_run_ReturnD [OF this] obtain y where
    y1: "isSecured env s sender (envTopic env (Payload m)) = Return y" and
    y2: "(case y of (secured, s1) \<Rightarrow>
           if \<not> secured then Return (None, s1)
           else
             (let hs = getHandlers s1 (envTopic env (Payload m)) in
              if length hs = 0 then Return (Some (Error ''No registered handler for topic''), s1)
              else Return (runHandlers env hs (MsgPayload recvmsg) sender s1))) = ?R"
    by blast
  obtain secured s1 where ys: "y = (secured, s1)" by (cases y)
  from y1 have sec: "isSecured env s sender (envTopic env (Payload m)) = Return (secured, s1)"
    by (simp only: ys)
  from y2 have rest: "(if \<not> secured then Return (None, s1)
               else
                 (let hs = getHandlers s1 (envTopic env (Payload m)) in
                  if length hs = 0 then Return (Some (Error ''No registered handler for topic''), s1)
                  else Return (runHandlers env hs (MsgPayload recvmsg) sender s1))) = ?R"
    by (simp only: ys prod.case)
  have d1: "delivered s1 = delivered s"
    using isSecured_frame [OF sec] by auto
  from rest have "s' = s1 \<or> s' = snd (runHandlers env (getHandlers s1 (envTopic env (Payload m))) (MsgPayload recvmsg) sender s1)"
    by (auto simp: Let_def split: if_splits)
  then show ?thesis
  proof
    assume "s' = s1"
    with d1 show ?thesis by (intro exI [of _ "[]"]) simp
  next
    assume "s' = snd (runHandlers env (getHandlers s1 (envTopic env (Payload m))) (MsgPayload recvmsg) sender s1)"
    with d1 runHandlers_delivered [of env "getHandlers s1 (envTopic env (Payload m))" "MsgPayload recvmsg" sender s1]
    show ?thesis by simp
  qed
qed

text \<open>
  C9. When a symmetric key with id \<open>K\<close> opens the envelope, the sender \<open>Process\<close> uses is
  the reverse-index entry under \<open>K\<close> and the envelope topic (any address stored there is
  that sender), and every handler invocation of that call carries it. The invariant
  \<open>reverseIndexed\<close> is kept by every operation of the model; \<open>SetIncomingSymmetricKey\<close>
  writes the entry for the id it installs, and the other key operations leave the reverse
  index as it was.
\<close>

theorem C9_reverse_index_invariant:
  assumes inv: "reverseIndexed s"
  shows "(\<forall>recvmsg sender. trySymKeys env s (Payload m) (recvsymkeys s) = Some (recvmsg, sender) \<longrightarrow>
            (\<exists>K key. K \<in> set (recvsymkeys s) \<and> GetSymKey env (whisper s) K = Inr key \<and>
                OpenSymmetric env (Payload m) key = Inr recvmsg \<and>
                sender = reverseOf s K (envTopic env (Payload m)) \<and>
                (\<forall>x b. reverseKeyPool s K = Some x \<and> x (envTopic env (Payload m)) = Some b \<longrightarrow> sender = b)) \<and>
            (\<forall>r s'. Process n env s m = Return (r, s') \<longrightarrow>
                (\<exists>new. delivered s' = delivered s @ new \<and>
                   (\<forall>x \<in> set new. snd x = (MsgPayload recvmsg, sender)))))
    \<and> (\<forall>r s'. SetIncomingSymmetricKey env s a t key = Return (r, s') \<longrightarrow>
          reverseIndexed s' \<and>
          (r = None \<longrightarrow> (\<exists>p x. peerOf s' a t = Some p \<and> reverseKeyPool s' (recvsymkey p) = Some x \<and> x t = Some a)))
    \<and> (\<forall>r s'. SetOutgoingSymmetricKey env s a t key = Return (r, s') \<longrightarrow>
          reverseIndexed s' \<and> reverseKeyPool s' = reverseKeyPool s)
    \<and> (\<forall>s'. AddPublicKey s a t pk = Return s' \<longrightarrow> reverseIndexed s' \<and> reverseKeyPool s' = reverseKeyPool s)
    \<and> reverseIndexed (snd (preparePeerTopic s a t))
    \<and> reverseIndexed (removePeerTopic s prw t)
    \<and> (\<forall>r s'. AddToCache env s c m = Return (r, s') \<longrightarrow> reverseIndexed s')
    \<and> (\<forall>r s'. Forward n env s m = Return (r, s') \<longrightarrow> reverseIndexed s')
    \<and> (\<forall>r s'. Process n env s m = Return (r, s') \<longrightarrow> reverseIndexed s')
    \<and> (\<forall>r s'. SendSym n env s to t payload = Return (r, s') \<longrightarrow> reverseIndexed s')
    \<and> (\<forall>r s'. SendAsym n env s to t payload = Return (r, s') \<longrightarrow> reverseIndexed s')
    \<and> (\<forall>r s'. handlePssMsg n env s mo = Return (r, s') \<longrightarrow> reverseIndexed s')"
proof -
  have fwd_ok: "\<forall>s m r s'. reverseIndexed s \<longrightarrow> Forward n env s m = Return (r, s') \<longrightarrow> reverseIndexed s'"
    using reverseIndexed_Forward by blast
  have proc: "reverseIndexed s'" if "Process n env s m = Return (r, s')" for m r s'
    using reverseIndexed_ProcessWith [OF fwd_ok inv] that unfolding Process_def by blast
  have c1: "\<forall>recvmsg sender. trySymKeys env s (Payload m) (recvsymkeys s) = Some (recvmsg, sender) \<longrightarrow>
            (\<exists>K key. K \<in> set (recvsymkeys s) \<and> GetSymKey env (whisper s) K = Inr key \<and>
                OpenSymmetric env (Payload m) key = Inr recvmsg \<and>
                sender = reverseOf s K (envTopic env (Payload m)) \<and>
                (\<forall>x b. reverseKeyPool s K = Some x \<and> x (envTopic env (Payload m)) = Some b \<longrightarrow> sender = b)) \<and>
            (\<forall>r s'. Process n env s m = Return (r, s') \<longrightarrow>
                (\<exists>new. delivered s' = delivered s @ new \<and>
                   (\<forall>x \<in> set new. snd x = (MsgPayload recvmsg, sender))))"
  proof (intro allI impI conjI)
    fix recvmsg sender
    assume o: "trySymKeys env s (Payload m) (recvsymkeys s) = Some (recvmsg, sender)"
    from trySymKeys_Some [OF o] obtain K key where
      K: "K \<in> set (recvsymkeys s)" "GetSymKey env (whisper s) K = Inr key"
        "OpenSymmetric env (Payload m) key = Inr recvmsg" "sender = reverseOf s K (envTopic env (Payload m))"
      by blast
    have "\<forall>x b. reverseKeyPool s K = Some x \<and> x (envTopic env (Payload m)) = Some b \<longrightarrow> sender = b"
      using K(4) by (auto simp: reverseOf_entry)
    with K show "\<exists>K key. K \<in> set (recvsymkeys s) \<and> GetSymKey env (whisper s) K = Inr key \<and>
                OpenSymmetric env (Payload m) key = Inr recvmsg \<and>
                sender = reverseOf s K (envTopic env (Payload m)) \<and>
                (\<forall>x b. reverseKeyPool s K = Some x \<and> x (envTopic env (Payload m)) = Some b \<longrightarrow> sender = b)"
      by blast
  next
    fix recvmsg sender r s'
    assume o: "trySymKeys env s (Payload m) (recvsymkeys s) = Some (recvmsg, sender)"
      and p: "Process n env s m = Return (r, s')"
    from ProcessWith_delivers_sender [OF o p [unfolded Process_def]]
    show "\<exists>new. delivered s' = delivered s @ new \<and> (\<forall>x \<in> set new. snd x = (MsgPayload recvmsg, sender))" .
  qed
  have c2: "\<forall>r s'. SetIncomingSymmetricKey env s a t key = Return (r, s') \<longrightarrow>
          reverseIndexed s' \<and>
          (r = None \<longrightarrow> (\<exists>p x. peerOf s' a t = Some p \<and> reverseKeyPool s' (recvsymkey p) = Some x \<and> x t = Some a))"
    using reverseIndexed_SetIncoming [OF inv] by blast
  have c3: "\<forall>r s'. SetOutgoingSymmetricKey env s a t key = Return (r, s') \<longrightarrow>
          reverseIndexed s' \<and> reverseKeyPool s' = reverseKeyPool s"
    using reverseIndexed_SetOutgoing [OF inv] by blast
  have c4: "\<forall>s'. AddPublicKey s a t pk = Return s' \<longrightarrow> reverseIndexed s' \<and> reverseKeyPool s' = reverseKeyPool s"
    using reverseIndexed_AddPublicKey [OF inv] by blast
  have c5: "reverseIndexed (snd (preparePeerTopic s a t))"
    by (rule reverseIndexed_preparePeerTopic [OF inv])
  have c6: "reverseIndexed (removePeerTopic s prw t)"
    by (rule reverseIndexed_removePeerTopic [OF inv])
  have c7: "\<forall>r s'. AddToCache env s c m = Return (r, s') \<longrightarrow> reverseIndexed s'"
    using reverseIndexed_AddToCache [OF inv] by blast
  have c8: "\<forall>r s'. Forward n env s m = Return (r, s') \<longrightarrow> reverseIndexed s'"
    using reverseIndexed_Forward [OF inv] by blast
  have c9: "\<forall>r s'. Process n env s m = Return (r, s') \<longrightarrow> reverseIndexed s'"
    using proc by blast
  have c10: "\<forall>r s'. SendSym n env s to t payload = Return (r, s') \<longrightarrow> reverseIndexed s'"
    using reverseIndexed_SendSymWith [OF fwd_ok inv] unfolding SendSym_def by blast
  have c11: "\<forall>r s'. handlePssMsg n env s mo = Return (r, s') \<longrightarrow> reverseIndexed s'"
  proof (intro allI impI)
    fix r s'
    assume h: "handlePssMsg n env s mo = Return (r, s')"
    show "reverseIndexed s'"
    proof (cases mo)
      case None
      with h inv show ?thesis by (simp add: handlePssMsg_def)
    next
      case (Some pssmsg)
      with h have "Forward n env s pssmsg = Return (r, s') \<or> Process n env s pssmsg = Return (r, s')"
        by (auto simp: handlePssMsg_def split: if_splits)
      then show ?thesis
        using reverseIndexed_Forward [OF inv] proc by blast
    qed
  qed
  have c12: "\<forall>r s'. SendAsym n env s to t payload = Return (r, s') \<longrightarrow> reverseIndexed s'"
    using reverseIndexed_SendAsymWith [OF fwd_ok inv] unfolding SendAsym_def by blast
  from c1 c2 c3 c4 c5 c6 c7 c8 c9 c10 c11 c12 show ?thesis by blast
qed

text \<open>
  C9 on scenario S1: the invariant holds after the two keys of address 1 are installed, and
  a message sealed under the inbound key is attributed to address 1.
\<close>

theorem C9_witness:
  "reverseIndexed exPss
   \<and> SetOutgoingSymmetricKey (exNet [exConn 1 False]) exPss (exAddr 1) 1 [4, 4] = Return (None, exOutbound)
   \<and> SetIncomingSymmetricKey (exNet [exConn 1 False]) exOutbound (exAddr 1) 1 [0xAA, 1] = Return (None, exSecured)
   \<and> reverseIndexed exSecured
   \<and> trySymKeys (exNet [exConn 1 False]) exSecured (Payload exInbound) (recvsymkeys exSecured)
       = Some (\<lparr>MsgPayload = [7, 7], SigValid = True\<rparr>, exAddr 1)
   \<and> reverseOf exSecured ''k+'' (envTopic (exNet [exConn 1 False]) (Payload exInbound)) = exAddr 1
   \<and> (\<exists>K. K \<in> set (recvsymkeys exSecured) \<and>
          exAddr 1 = reverseOf exSecured K (envTopic (exNet [exConn 1 False]) (Payload exInbound)))"
proof -
  let ?env = "exNet [exConn 1 False]"
  have i0: "reverseIndexed exPss"
    by (simp add: exPss_def reverseIndexed_NewPss [unfolded NewPss_def] NewPss_def
        reverseIndexed_cong [of _ "NewPss 10 []", unfolded NewPss_def])
  have k1: "SetOutgoingSymmetricKey ?env exPss (exAddr 1) 1 [4, 4] = Return (None, exOutbound)"
    and k2: "SetIncomingSymmetricKey ?env exOutbound (exAddr 1) 1 [0xAA, 1] = Return (None, exSecured)"
    using ex_keys [of "[exConn 1 False]"] by blast+
  have o: "trySymKeys ?env exSecured (Payload exInbound) (recvsymkeys exSecured)
       = Some (\<lparr>MsgPayload = [7, 7], SigValid = True\<rparr>, exAddr 1)"
    by (simp add: exInbound_def exSecured_def ex_defs exw_defs reverseOf_def)
  have r: "reverseOf exSecured ''k+'' (envTopic ?env (Payload exInbound)) = exAddr 1"
    by (simp add: exInbound_def exSecured_def ex_defs exw_defs reverseOf_def)
  note C9_reverse_index_invariant [OF i0, where env = ?env and a = "exAddr 1" and t = 1 and key = "[4, 4]",
      THEN conjunct2, THEN conjunct2, THEN conjunct1, rule_format, OF k1, THEN conjunct1]
  then have i1: "reverseIndexed exOutbound" .
  note C9_reverse_index_invariant [OF i1, where env = ?env and a = "exAddr 1" and t = 1 and key = "[0xAA, 1]",
      THEN conjunct2, THEN conjunct1, rule_format, OF k2, THEN conjunct1]
  then have i2: "reverseIndexed exSecured" .
  note C9_reverse_index_invariant [OF i2, where env = ?env and m = exInbound
      and n = 0, THEN conjunct1, rule_format, OF o, THEN conjunct1]
  then have k: "\<exists>K. K \<in> set (recvsymkeys exSecured) \<and>
          exAddr 1 = reverseOf exSecured K (envTopic ?env (Payload exInbound))"
    by blast
  from i0 k1 k2 i2 o r k show ?thesis by blast
qed

end
